theory Spec2Isabelle
  imports Main
begin

section \<open>JavaScript values\<close>

text \<open>
  The cells of a sheet are host-defined JavaScript values. The model keeps the
  primitives the default cell type uses (\<open>string | number | boolean | null\<close>),
  \<open>undefined\<close>, and objects. An object carries its reference (a number) and its
  own properties; numbers are the integers, which is all the grid code computes with.
\<close>

datatype jsval =
    Undefined
  | Null
  | JBool bool
  | JNum int
  | JStr string
  | JObj nat "(string \<times> jsval) list"

datatype error = TypeError

text \<open>\<open>Boolean(v)\<close>, the test behind \<open>&&\<close>, \<open>?:\<close> and \<open>if\<close>.\<close>

fun truthy :: "jsval \<Rightarrow> bool" where
  "truthy Undefined = False"
| "truthy Null = False"
| "truthy (JBool b) = b"
| "truthy (JNum n) = (n \<noteq> 0)"
| "truthy (JStr s) = (s \<noteq> [])"
| "truthy (JObj a fs) = True"

text \<open>\<open>a === b\<close>: objects are equal when they are the same reference.\<close>

fun strict_eq :: "jsval \<Rightarrow> jsval \<Rightarrow> bool" where
  "strict_eq (JObj a fs) (JObj b gs) = (a = b)"
| "strict_eq x y = (x = y)"

text \<open>
  \<open>v.k\<close> for the property names the code reads (\<open>data\<close>, \<open>value\<close>): a
  TypeError on \<open>undefined\<close> and \<open>null\<close>, \<open>undefined\<close> on a primitive or on an object
  without the property.
\<close>

fun get_prop :: "jsval \<Rightarrow> string \<Rightarrow> error + jsval" where
  "get_prop Undefined k = Inl TypeError"
| "get_prop Null k = Inl TypeError"
| "get_prop (JObj a fs) k = Inr (case map_of fs k of None \<Rightarrow> Undefined | Some v \<Rightarrow> v)"
| "get_prop v k = Inr Undefined"

section \<open>Arrays\<close>

text \<open>
  A JavaScript array is a list of slots; \<open>None\<close> is an empty slot (a hole). A row of
  the matrix is an array of cells. In the matrix itself a row that is a hole and a row
  that is \<open>undefined\<close> are both \<open>None\<close>: every function of \<open>matrix.js\<close> treats the
  two alike, so \<open>[...matrix]\<close> is the list itself.
\<close>

type_synonym row = "jsval option list"
type_synonym matrix = "row option list"

text \<open>\<open>xs[i]\<close>: \<open>None\<close> stands for \<open>undefined\<close>, also out of range and below zero.\<close>

definition js_index :: "'a option list \<Rightarrow> int \<Rightarrow> 'a option" where
  "js_index xs i = (if 0 \<le> i \<and> i < int (length xs) then xs ! nat i else None)"

text \<open>\<open>xs[i] = v\<close> for an index \<open>i \<ge> 0\<close>: past the end the array grows, leaving holes.\<close>

definition js_assign :: "'a option list \<Rightarrow> nat \<Rightarrow> 'a \<Rightarrow> 'a option list" where
  "js_assign xs i v =
     (if i < length xs then xs[i := Some v]
      else xs @ replicate (i - length xs) None @ [Some v])"

text \<open>Reading a slot of a row: a hole reads as \<open>undefined\<close>.\<close>

definition read_slot :: "jsval option \<Rightarrow> jsval" where
  "read_slot e = (case e of None \<Rightarrow> Undefined | Some v \<Rightarrow> v)"

text \<open>\<open>[...row]\<close>: the copy is dense, every hole becomes \<open>undefined\<close>.\<close>

definition spread_row :: "row \<Rightarrow> row" where
  "spread_row r = map (\<lambda>e. Some (read_slot e)) r"

section \<open>matrix.js\<close>

definition Matrix_get :: "int \<Rightarrow> int \<Rightarrow> matrix \<Rightarrow> jsval" where
  "Matrix_get r c matrix =
     (case js_index matrix r of
        None \<Rightarrow> Undefined
      | Some columns \<Rightarrow> read_slot (js_index columns c))"

text \<open>
  The parameters \<open>row\<close> and \<open>column\<close> of the source are \<open>r\<close> and \<open>c\<close> here (the
  fields of a point take the names). \<open>set\<close> is called with array indices
  (\<open>r, c \<ge> 0\<close>); a row is an array, hence truthy, whenever it is there.
\<close>

definition Matrix_set :: "nat \<Rightarrow> nat \<Rightarrow> jsval \<Rightarrow> matrix \<Rightarrow> matrix" where
  "Matrix_set r c v matrix =
     (let nextRow = (case js_index matrix (int r) of Some old \<Rightarrow> spread_row old | None \<Rightarrow> []);
          nextRow' = js_assign nextRow c v;
          nextMatrix = matrix
      in js_assign nextMatrix r nextRow')"

definition Matrix_has :: "int \<Rightarrow> int \<Rightarrow> matrix \<Rightarrow> bool" where
  "Matrix_has r c matrix =
     (case js_index matrix r of
        None \<Rightarrow> False
      | Some columns \<Rightarrow> truthy (read_slot (js_index columns c)))"

text \<open>
  \<open>row.filter(func)\<close> visits the slots that hold a value and keeps those \<open>func\<close>
  accepts; the result is dense.
\<close>

definition js_filter :: "(jsval \<Rightarrow> bool) \<Rightarrow> row \<Rightarrow> row" where
  "js_filter func xs = [Some v. Some v \<leftarrow> xs, func v]"

definition Matrix_filter :: "(jsval \<Rightarrow> bool) \<Rightarrow> matrix \<Rightarrow> matrix" where
  "Matrix_filter func matrix =
     filter (\<lambda>r. case r of None \<Rightarrow> False | Some xs \<Rightarrow> xs \<noteq> [])
       (map (map_option (js_filter func)) matrix)"

text \<open>
  \<open>row.map(func)\<close> calls \<open>func\<close> on the slots that hold a value, left to right, and
  leaves the holes; an exception of \<open>func\<close> ends the whole call.
\<close>

fun js_map :: "(jsval \<Rightarrow> error + jsval) \<Rightarrow> row \<Rightarrow> error + row" where
  "js_map func [] = Inr []"
| "js_map func (None # xs) =
     (case js_map func xs of Inl e \<Rightarrow> Inl e | Inr ys \<Rightarrow> Inr (None # ys))"
| "js_map func (Some v # xs) =
     (case func v of
        Inl e \<Rightarrow> Inl e
      | Inr w \<Rightarrow> (case js_map func xs of Inl e \<Rightarrow> Inl e | Inr ys \<Rightarrow> Inr (Some w # ys)))"

fun Matrix_map :: "(jsval \<Rightarrow> error + jsval) \<Rightarrow> matrix \<Rightarrow> error + matrix" where
  "Matrix_map func [] = Inr []"
| "Matrix_map func (None # rs) =
     (case Matrix_map func rs of Inl e \<Rightarrow> Inl e | Inr ys \<Rightarrow> Inr (None # ys))"
| "Matrix_map func (Some xs # rs) =
     (case js_map func xs of
        Inl e \<Rightarrow> Inl e
      | Inr ws \<Rightarrow> (case Matrix_map func rs of Inl e \<Rightarrow> Inl e | Inr ys \<Rightarrow> Inr (Some ws # ys)))"

text \<open>
  \<open>String(v)\<close>. Numbers print in decimal (the model has the integers, below the
  \<open>1e21\<close> from which JavaScript prints an exponent); an object prints as plain objects do.
\<close>

definition digit_char :: "nat \<Rightarrow> char" where
  "digit_char d = ''0123456789'' ! d"

function show_nat :: "nat \<Rightarrow> string" where
  "show_nat n = (if n < 10 then [digit_char n] else show_nat (n div 10) @ [digit_char (n mod 10)])"
  by pat_completeness auto
termination
  by (relation "measure (\<lambda>n. n)") auto

definition show_int :: "int \<Rightarrow> string" where
  "show_int i = (if i < 0 then CHR ''-'' # show_nat (nat (- i)) else show_nat (nat i))"

fun to_string :: "jsval \<Rightarrow> string" where
  "to_string Undefined = ''undefined''"
| "to_string Null = ''null''"
| "to_string (JBool b) = (if b then ''true'' else ''false'')"
| "to_string (JNum n) = show_int n"
| "to_string (JStr s) = s"
| "to_string (JObj a fs) = ''[object Object]''"

text \<open>
  \<open>xs.join(separator)\<close>: a hole, \<open>undefined\<close> and \<open>null\<close> give the empty string, every
  other element its \<open>String\<close>.
\<close>

fun join_item :: "jsval option \<Rightarrow> string" where
  "join_item None = []"
| "join_item (Some Undefined) = []"
| "join_item (Some Null) = []"
| "join_item (Some v) = to_string v"

fun join_strings :: "string \<Rightarrow> string list \<Rightarrow> string" where
  "join_strings separator [] = []"
| "join_strings separator [s] = s"
| "join_strings separator (s # t # ss) = s @ separator @ join_strings separator (t # ss)"

definition js_join :: "jsval option list \<Rightarrow> string \<Rightarrow> string" where
  "js_join xs separator = join_strings separator (map join_item xs)"

text \<open>
  \<open>join\<close> has default separators: an argument left out (\<open>None\<close>) is \<open>", "\<close> between
  the cells of a row and a newline between rows.
\<close>

definition Matrix_join :: "matrix \<Rightarrow> string option \<Rightarrow> string option \<Rightarrow> string" where
  "Matrix_join matrix horizontalSeparator verticalSeparator =
     (let h = (case horizontalSeparator of None \<Rightarrow> '', '' | Some s \<Rightarrow> s);
          v = (case verticalSeparator of None \<Rightarrow> [CHR 0x0A] | Some s \<Rightarrow> s)
      in js_join (map (map_option (\<lambda>r. JStr (js_join r h))) matrix) v)"

record size_rec =
  columns :: nat
  rows :: nat

definition getSize :: "matrix \<Rightarrow> size_rec" where
  "getSize matrix =
     \<lparr>columns = (case js_index matrix 0 of Some firstRow \<Rightarrow> length firstRow | None \<Rightarrow> 0),
      rows = length matrix\<rparr>"

subsection \<open>Points and ranges\<close>

record point =
  row :: int
  column :: int

text \<open>
  Modelled from the spec: \<open>range\<close> of \<open>util.js\<close>, which is not part of the sources at
  hand. \<open>matrix.js\<close> calls it as \<open>_range(end, start)\<close>, with the step left at 1; the
  numbers progress from \<open>start\<close> up to, but not including, \<open>end\<close>, downwards when
  \<open>end\<close> is below \<open>start\<close> (\<open>range(1, 5)\<close> is \<open>[5, 4, 3, 2]\<close>).
\<close>

definition util_range :: "int \<Rightarrow> int \<Rightarrow> int list" where
  "util_range end start = (if end < start then rev [end + 1..start] else [start..end - 1])"

text \<open>Modelled from the spec: \<open>flatMap\<close> of \<open>util.js\<close>, the concatenation of the images.\<close>

definition flatMap :: "'a list \<Rightarrow> ('a \<Rightarrow> 'b list) \<Rightarrow> 'b list" where
  "flatMap xs f = concat (map f xs)"

definition Matrix_range :: "point \<Rightarrow> point \<Rightarrow> point list" where
  "Matrix_range endPoint startPoint =
     (let columnsRange =
            (if column startPoint \<noteq> column endPoint
             then util_range (column endPoint) (column startPoint)
             else if row startPoint \<noteq> row endPoint then [column startPoint] else []);
          rowsRange =
            (if row startPoint \<noteq> row endPoint
             then util_range (row endPoint) (row startPoint)
             else if column startPoint \<noteq> column endPoint then [row startPoint] else [])
      in flatMap rowsRange (\<lambda>r. map (\<lambda>c. \<lparr>row = r, column = c\<rparr>) columnsRange))"

definition inclusiveRange :: "point \<Rightarrow> point \<Rightarrow> point list" where
  "inclusiveRange endPoint startPoint =
     Matrix_range
       \<lparr>row = row endPoint + sgn (row endPoint - row startPoint),
        column = column endPoint + sgn (column endPoint - column startPoint)\<rparr>
       startPoint"

text \<open>
  The rectangle spanned by two corners, as the spec describes the result of the
  inclusive range: the integers from \<open>a\<close> to \<open>b\<close>, both included, in the direction from
  \<open>a\<close> to \<open>b\<close>; and the points of the rectangle, the rows outermost, both axes running
  from the start corner to the end corner.
\<close>

definition inclusive_span :: "int \<Rightarrow> int \<Rightarrow> int list" where
  "inclusive_span a b = (if a \<le> b then [a..b] else rev [b..a])"

definition rectangle_points :: "point \<Rightarrow> point \<Rightarrow> point list" where
  "rectangle_points startPoint endPoint =
     concat (map (\<lambda>r. map (\<lambda>c. \<lparr>row = r, column = c\<rparr>)
                          (inclusive_span (column startPoint) (column endPoint)))
                 (inclusive_span (row startPoint) (row endPoint)))"

text \<open>The shape of a matrix: which rows are there, and how long each is.\<close>

definition shape :: "matrix \<Rightarrow> nat option list" where
  "shape m = map (map_option length) m"

subsection \<open>The same \<open>set\<close> on a store of arrays\<close>

text \<open>
  Whether \<open>set\<close> leaves its argument alone is a question about the arrays themselves,
  so here they live in a store: an address holds a row (an array of cells) or a matrix
  (an array of row addresses), and \<open>next_addr\<close> is the first address not in use.
  \<open>[...xs]\<close> and \<open>[]\<close> allocate, \<open>xs[i] = v\<close> writes in place.
\<close>

record store =
  row_at :: "nat \<Rightarrow> row"
  matrix_at :: "nat \<Rightarrow> nat option list"
  next_addr :: nat

definition alloc_row :: "row \<Rightarrow> store \<Rightarrow> nat \<times> store" where
  "alloc_row xs s =
     (next_addr s, s\<lparr>row_at := (row_at s)(next_addr s := xs), next_addr := Suc (next_addr s)\<rparr>)"

definition alloc_matrix :: "nat option list \<Rightarrow> store \<Rightarrow> nat \<times> store" where
  "alloc_matrix xs s =
     (next_addr s, s\<lparr>matrix_at := (matrix_at s)(next_addr s := xs), next_addr := Suc (next_addr s)\<rparr>)"

definition matrix_of :: "store \<Rightarrow> nat \<Rightarrow> matrix" where
  "matrix_of s a = map (map_option (row_at s)) (matrix_at s a)"

definition Matrix_set_store :: "nat \<Rightarrow> nat \<Rightarrow> jsval \<Rightarrow> nat \<Rightarrow> store \<Rightarrow> nat \<times> store" where
  "Matrix_set_store r c v a s =
     (let (nextRow, s1) =
            alloc_row (case js_index (matrix_at s a) (int r) of
                         Some old \<Rightarrow> spread_row (row_at s old)
                       | None \<Rightarrow> []) s;
          s2 = s1\<lparr>row_at := (row_at s1)(nextRow := js_assign (row_at s1 nextRow) c v)\<rparr>;
          (nextMatrix, s3) = alloc_matrix (matrix_at s2 a) s2;
          s4 = s3\<lparr>matrix_at := (matrix_at s3)(nextMatrix := js_assign (matrix_at s3 nextMatrix) r nextRow)\<rparr>
      in (nextMatrix, s4))"

text \<open>
  The store is in order for a matrix when the matrix and the rows it refers to are
  allocated.
\<close>

definition store_ok :: "store \<Rightarrow> nat \<Rightarrow> bool" where
  "store_ok s a =
     (a < next_addr s \<and> list_all (\<lambda>e. case e of None \<Rightarrow> True | Some ra \<Rightarrow> ra < next_addr s) (matrix_at s a))"

section \<open>point-set.js\<close>

text \<open>
  Modelled from the spec: the module \<open>point-set.js\<close> is not part of the sources at
  hand. A PointSet is a collection of unique points; the model keeps them in a list
  without duplicates. The spec gives the set no order, so nothing proved below depends
  on the order of the list. \<open>reduce\<close> folds a function of the accumulator and a point
  over the set, \<open>getEdgeValue\<close> is the least (direction \<open>-1\<close>) or greatest (direction
  \<open>+1\<close>) row or column present, \<open>toMatrix\<close> is the sparse matrix that holds the cells of
  the set only. The spec leaves the edge value of the empty set open; \<open>0\<close> stands in.
\<close>

type_synonym pointset = "point list"

datatype field = RowField | ColumnField

fun point_field :: "point \<Rightarrow> field \<Rightarrow> int" where
  "point_field p RowField = row p"
| "point_field p ColumnField = column p"

fun point_with :: "point \<Rightarrow> field \<Rightarrow> int \<Rightarrow> point" where
  "point_with p RowField v = p\<lparr>row := v\<rparr>"
| "point_with p ColumnField v = p\<lparr>column := v\<rparr>"

definition PointSet_from :: "point list \<Rightarrow> pointset" where
  "PointSet_from points = remdups points"

definition PointSet_has :: "pointset \<Rightarrow> point \<Rightarrow> bool" where
  "PointSet_has ps p = (p \<in> set ps)"

definition PointSet_add :: "pointset \<Rightarrow> point \<Rightarrow> pointset" where
  "PointSet_add ps p = (if p \<in> set ps then ps else ps @ [p])"

definition PointSet_filter :: "(point \<Rightarrow> bool) \<Rightarrow> pointset \<Rightarrow> pointset" where
  "PointSet_filter func ps = filter func ps"

definition PointSet_reduce :: "('a \<Rightarrow> point \<Rightarrow> 'a) \<Rightarrow> pointset \<Rightarrow> 'a \<Rightarrow> 'a" where
  "PointSet_reduce func ps initialValue = foldl func initialValue ps"

definition getEdgeValue :: "pointset \<Rightarrow> field \<Rightarrow> int \<Rightarrow> int" where
  "getEdgeValue ps f direction =
     (case map (\<lambda>p. point_field p f) ps of
        [] \<Rightarrow> 0
      | x # xs \<Rightarrow> (if direction = - 1 then foldl min x xs else foldl max x xs))"

definition toMatrix :: "pointset \<Rightarrow> matrix \<Rightarrow> matrix" where
  "toMatrix ps m =
     PointSet_reduce
       (\<lambda>acc p. Matrix_set (nat (row p)) (nat (column p)) (Matrix_get (row p) (column p) m) acc)
       ps []"

section \<open>The store state\<close>

datatype mode = View | Edit

text \<open>
  The fields of the store state that the handlers read and write. \<open>cut\<close> and
  \<open>hasPasted\<close> are not part of the initial state: \<open>None\<close> is the field not yet set.
\<close>

record state =
  data :: matrix
  active :: "point option"
  selected :: pointset
  copied :: pointset
  mode :: mode
  cut :: "bool option"
  hasPasted :: "bool option"

text \<open>A partial state, as a handler returns it: \<open>None\<close> is a key that is left out.\<close>

record patch =
  p_data :: "matrix option"
  p_active :: "point option"
  p_selected :: "pointset option"
  p_copied :: "pointset option"
  p_mode :: "mode option"
  p_cut :: "bool option"
  p_hasPasted :: "bool option"

definition empty_patch :: patch where
  "empty_patch =
     \<lparr>p_data = None, p_active = None, p_selected = None, p_copied = None, p_mode = None,
      p_cut = None, p_hasPasted = None\<rparr>"

text \<open>
  Modelled from the spec: \<open>setState\<close> of the store (the library \<open>unistore\<close>), a shallow
  merge of the partial state into the state.
\<close>

definition setState :: "state \<Rightarrow> patch \<Rightarrow> state" where
  "setState st p =
     \<lparr>data = (case p_data p of None \<Rightarrow> data st | Some d \<Rightarrow> d),
      active = (case p_active p of None \<Rightarrow> active st | Some a \<Rightarrow> Some a),
      selected = (case p_selected p of None \<Rightarrow> selected st | Some s \<Rightarrow> s),
      copied = (case p_copied p of None \<Rightarrow> copied st | Some s \<Rightarrow> s),
      mode = (case p_mode p of None \<Rightarrow> mode st | Some m \<Rightarrow> m),
      cut = (case p_cut p of None \<Rightarrow> cut st | Some b \<Rightarrow> Some b),
      hasPasted = (case p_hasPasted p of None \<Rightarrow> hasPasted st | Some b \<Rightarrow> Some b)\<rparr>"

section \<open>Spreadsheet.js: the keyboard\<close>

record key_event =
  key :: string
  shiftKey :: bool

text \<open>
  A handler returns a partial state or \<open>null\<close> (\<open>Inr None\<close>), or throws. Its first
  argument is the first object reference not in use, for the objects it creates; the
  source has no such argument.
\<close>

type_synonym handler = "nat \<Rightarrow> state \<Rightarrow> key_event \<Rightarrow> error + patch option"

definition go :: "int \<Rightarrow> int \<Rightarrow> handler" where
  "go rowDelta columnDelta ref st event =
     (case active st of
        None \<Rightarrow> Inr None
      | Some a \<Rightarrow>
          (let nextActive = \<lparr>row = row a + rowDelta, column = column a + columnDelta\<rparr>
           in if \<not> Matrix_has (row nextActive) (column nextActive) (data st)
              then Inr (Some (empty_patch\<lparr>p_mode := Some View\<rparr>))
              else Inr (Some (empty_patch
                     \<lparr>p_active := Some nextActive,
                      p_selected := Some (PointSet_from [nextActive]),
                      p_mode := Some View\<rparr>))))"

definition cellFromValue :: "nat \<Rightarrow> jsval \<Rightarrow> jsval" where
  "cellFromValue ref v = JObj ref [(''value'', v)]"

text \<open>
  Modelled from the spec: \<open>updateData\<close> of \<open>util.js\<close>, which puts the cell of a
  descriptor \<open>{row, column, data}\<close> into a new data matrix.
\<close>

definition updateData :: "matrix \<Rightarrow> point \<Rightarrow> jsval \<Rightarrow> matrix" where
  "updateData m p d = Matrix_set (nat (row p)) (nat (column p)) d m"

definition Enter_handler :: handler where
  "Enter_handler ref st event = Inr (Some (empty_patch\<lparr>p_mode := Some Edit\<rparr>))"

definition Backspace_handler :: handler where
  "Backspace_handler ref st event =
     (if active st = None then Inr None
      else Inr (Some (empty_patch
             \<lparr>p_data := Some (fst (PointSet_reduce
                 (\<lambda>(acc, n) p. (updateData acc p (cellFromValue n (JStr [])), Suc n))
                 (selected st) (data st, ref)))\<rparr>)))"

definition keyDownHandlers :: "(string \<times> handler) list" where
  "keyDownHandlers =
     [(''ArrowUp'', go (- 1) 0),
      (''ArrowDown'', go 1 0),
      (''ArrowLeft'', go 0 (- 1)),
      (''ArrowRight'', go 0 1),
      (''Tab'', go 0 1),
      (''Enter'', Enter_handler),
      (''Backspace'', Backspace_handler)]"

definition Escape_handler :: handler where
  "Escape_handler ref st event = Inr (Some (empty_patch\<lparr>p_mode := Some View\<rparr>))"

definition editKeyDownHandlers :: "(string \<times> handler) list" where
  "editKeyDownHandlers =
     [(''Escape'', Escape_handler),
      (''Tab'', go 0 1),
      (''Enter'', go 1 0)]"

text \<open>
  \<open>shrinkEdge\<close> and \<open>extendEdge\<close> of \<open>point-set.js\<close> are parameters. Reading
  \<open>state.active[field]\<close> throws when there is no active point.
\<close>

type_synonym edge_op = "pointset \<Rightarrow> field \<Rightarrow> int \<Rightarrow> pointset"

definition modifyEdge :: "edge_op \<Rightarrow> edge_op \<Rightarrow> field \<Rightarrow> int \<Rightarrow> handler" where
  "modifyEdge shrinkEdge extendEdge f delta ref st event =
     (case active st of
        None \<Rightarrow> Inl TypeError
      | Some a \<Rightarrow>
          (let edgeOffsets = PointSet_has (selected st) (point_with a f (point_field a f + delta * - 1));
               nextSelected =
                 (if edgeOffsets then shrinkEdge (selected st) f (delta * - 1)
                  else extendEdge (selected st) f delta)
           in Inr (Some (empty_patch
                \<lparr>p_selected := Some (PointSet_filter
                    (\<lambda>p. Matrix_has (row p) (column p) (data st)) nextSelected)\<rparr>))))"

definition shiftKeyDownHandlers :: "edge_op \<Rightarrow> edge_op \<Rightarrow> (string \<times> handler) list" where
  "shiftKeyDownHandlers shrinkEdge extendEdge =
     [(''ArrowUp'', modifyEdge shrinkEdge extendEdge RowField (- 1)),
      (''ArrowDown'', modifyEdge shrinkEdge extendEdge RowField 1),
      (''ArrowLeft'', modifyEdge shrinkEdge extendEdge ColumnField (- 1)),
      (''ArrowRight'', modifyEdge shrinkEdge extendEdge ColumnField 1)]"

definition handleKeyPress :: "state \<Rightarrow> patch option" where
  "handleKeyPress st =
     (if mode st = View \<and> active st \<noteq> None then Some (empty_patch\<lparr>p_mode := Some Edit\<rparr>)
      else None)"

definition handleKeyDown :: "edge_op \<Rightarrow> edge_op \<Rightarrow> handler" where
  "handleKeyDown shrinkEdge extendEdge ref st event =
     (let handlers =
            (if mode st = Edit then editKeyDownHandlers
             else if shiftKey event then shiftKeyDownHandlers shrinkEdge extendEdge
             else keyDownHandlers)
      in case map_of handlers (key event) of
           Some h \<Rightarrow> h ref st event
         | None \<Rightarrow> Inr None)"

text \<open>
  Modelled from the spec: how the store runs an action. A partial state is merged, on
  \<open>null\<close> nothing happens, and an exception leaves the state as it was.
\<close>

definition run_action :: "state \<Rightarrow> error + patch option \<Rightarrow> state" where
  "run_action st r = (case r of Inr (Some p) \<Rightarrow> setState st p | Inr None \<Rightarrow> st | Inl e \<Rightarrow> st)"

section \<open>Spreadsheet.js: the clipboard\<close>

text \<open>
  The module's own \<open>getValue = ({ data }) => data.value\<close>: the argument is taken
  apart for its \<open>data\<close>, whose \<open>value\<close> is read.
\<close>

definition getValue :: "jsval \<Rightarrow> error + jsval" where
  "getValue arg = (case get_prop arg ''data'' of Inl e \<Rightarrow> Inl e | Inr d \<Rightarrow> get_prop d ''value'')"

text \<open>
  What the platform answers to the permission query: no \<open>navigator.permissions\<close> at
  all, a status whose \<open>state\<close> is the given value, or a rejected promise.
\<close>

datatype permissions = NoPermissions | QueryResolves jsval | QueryRejects

text \<open>
  \<open>handleCopy\<close> returns the text written to the clipboard, if any is written, and the
  next state. The value matrix is computed before the permission is asked for, so an
  exception of \<open>getValue\<close> ends the handler before anything else happens.
\<close>

definition handleCopy :: "permissions \<Rightarrow> state \<Rightarrow> error + (string option \<times> state)" where
  "handleCopy navigator st =
     (let matrix = toMatrix (selected st) (data st);
          filteredMatrix = Matrix_filter truthy matrix
      in case Matrix_map getValue filteredMatrix of
           Inl e \<Rightarrow> Inl e
         | Inr valueMatrix \<Rightarrow>
             (let csv = Matrix_join valueMatrix None None;
                  written =
                    (case navigator of
                       NoPermissions \<Rightarrow> Some csv
                     | QueryResolves status \<Rightarrow> (if truthy status then Some csv else None)
                     | QueryRejects \<Rightarrow> None)
              in Inr (written,
                   setState st (empty_patch
                     \<lparr>p_copied := Some (selected st), p_cut := Some False,
                      p_hasPasted := Some False\<rparr>))))"

definition handleCut :: "permissions \<Rightarrow> state \<Rightarrow> error + (string option \<times> state)" where
  "handleCut navigator st =
     (case handleCopy navigator st of
        Inl e \<Rightarrow> Inl e
      | Inr (written, st') \<Rightarrow> Inr (written, setState st' (empty_patch\<lparr>p_cut := Some True\<rparr>)))"

text \<open>
  \<open>handlePaste\<close>: the function folded over the copied set reads \<open>prevState.active.row\<close>,
  which throws when there is no active point. A target that \<open>has\<close> accepts has indices
  \<open>\<ge> 0\<close>, so \<open>set\<close> is called with array indices.
\<close>

definition paste_target :: "int \<Rightarrow> int \<Rightarrow> point \<Rightarrow> point \<Rightarrow> point" where
  "paste_target minRow minColumn a p =
     \<lparr>row = row p - minRow + row a, column = column p - minColumn + column a\<rparr>"

definition paste_step ::
  "state \<Rightarrow> int \<Rightarrow> int \<Rightarrow> error + matrix \<times> pointset \<Rightarrow> point \<Rightarrow> error + matrix \<times> pointset" where
  "paste_step prevState minRow minColumn acc p =
     (case acc of
        Inl e \<Rightarrow> Inl e
      | Inr (acc_data, acc_selected) \<Rightarrow>
          (case active prevState of
             None \<Rightarrow> Inl TypeError
           | Some a \<Rightarrow>
               (let nextRow = row p - minRow + row a;
                    nextColumn = column p - minColumn + column a;
                    nextPointExists = Matrix_has nextRow nextColumn (data prevState)
                in if \<not> nextPointExists then Inr (acc_data, acc_selected)
                   else (let nextData =
                               Matrix_set (nat nextRow) (nat nextColumn)
                                 (Matrix_get (row p) (column p) (data prevState)) acc_data;
                             nextSelected =
                               PointSet_add acc_selected \<lparr>row = nextRow, column = nextColumn\<rparr>
                         in Inr (nextData, nextSelected)))))"

definition handlePaste :: "state \<Rightarrow> error + state" where
  "handlePaste prevState =
     (let minRow = getEdgeValue (copied prevState) RowField (- 1);
          minColumn = getEdgeValue (copied prevState) ColumnField (- 1)
      in case PointSet_reduce (paste_step prevState minRow minColumn) (copied prevState)
                (Inr (data prevState, PointSet_from [])) of
           Inl e \<Rightarrow> Inl e
         | Inr (d, s) \<Rightarrow>
             Inr (setState prevState (empty_patch
                    \<lparr>p_data := Some d, p_selected := Some s, p_cut := Some False,
                     p_hasPasted := Some True, p_mode := Some View\<rparr>)))"

text \<open>
  What copy puts on the clipboard, said without the matrices in between. Of row \<open>r\<close>
  the cells that are kept are the selected cells that are truthy, in the order of their
  columns; the rows copied are the rows that keep a cell, in their order; the text
  joins the values of a row with \<open>", "\<close> and the rows with a newline. \<open>R\<close> and \<open>C\<close> bound
  the rows and columns looked at.
\<close>

definition kept_cells :: "pointset \<Rightarrow> matrix \<Rightarrow> nat \<Rightarrow> nat \<Rightarrow> jsval list" where
  "kept_cells sel m C r =
     map (\<lambda>c. Matrix_get (int r) (int c) m)
       (filter (\<lambda>c. \<lparr>row = int r, column = int c\<rparr> \<in> set sel \<and> truthy (Matrix_get (int r) (int c) m))
          [0..<C])"

definition copied_rows :: "pointset \<Rightarrow> matrix \<Rightarrow> nat \<Rightarrow> nat \<Rightarrow> jsval list list" where
  "copied_rows sel m R C = filter (\<lambda>cells. cells \<noteq> []) (map (kept_cells sel m C) [0..<R])"

definition csv_text :: "jsval list list \<Rightarrow> string" where
  "csv_text vrows =
     join_strings [CHR 0x0A] (map (\<lambda>vs. join_strings '', '' (map (\<lambda>v. join_item (Some v)) vs)) vrows)"

text \<open>
  Two notions for the proofs: a bound on the length of every row, and the truthy cells
  of a row of a matrix.
\<close>

definition row_bound :: "nat \<Rightarrow> matrix \<Rightarrow> bool" where
  "row_bound C d = (\<forall>xs. Some xs \<in> set d \<longrightarrow> length xs \<le> C)"

definition kept_of :: "matrix \<Rightarrow> nat \<Rightarrow> nat \<Rightarrow> jsval list" where
  "kept_of tm C r =
     map (\<lambda>c. Matrix_get (int r) (int c) tm)
       (filter (\<lambda>c. truthy (Matrix_get (int r) (int c) tm)) [0..<C])"

section \<open>Spreadsheet.js: mounting and unmounting\<close>

text \<open>
  Modelled from the spec: the registries behind \<open>document.addEventListener\<close> and the
  store's \<open>subscribe\<close>, which are not code of this repository. A page holds the
  listeners on the document, each with its event type and the widget instance that
  added it, and the instances whose store subscription is live. The functions below are
  the two lifecycle methods of \<open>SpreadsheetWrapper\<close> for the instance \<open>i\<close>.
\<close>

record page =
  document_listeners :: "(string \<times> nat) list"
  store_subscribers :: "nat list"

definition componentDidMount :: "nat \<Rightarrow> page \<Rightarrow> page" where
  "componentDidMount i pg =
     pg\<lparr>store_subscribers := store_subscribers pg @ [i],
        document_listeners := document_listeners pg @ [(''copy'', i), (''cut'', i), (''paste'', i)]\<rparr>"

definition componentWillUnmount :: "nat \<Rightarrow> page \<Rightarrow> page" where
  "componentWillUnmount i pg = pg\<lparr>store_subscribers := remove1 i (store_subscribers pg)\<rparr>"

section \<open>ActiveCell.js\<close>

text \<open>
  The props of the active cell that \<open>componentDidUpdate\<close> reads. When no cell is
  active the component is hidden and gets neither \<open>cell\<close> nor \<open>mode\<close>: the cell is
  \<open>undefined\<close> and the mode is \<open>None\<close>.
\<close>

record ActiveCell_props =
  cell :: jsval
  mode_prop :: "mode option"

record ActiveCell_state =
  cellBeforeUpdate :: jsval

record commit_record =
  prevCell :: jsval
  nextCell :: jsval

text \<open>The calls the component makes on its props.\<close>

datatype call =
    Commit "commit_record list"
  | SetCellData point jsval "point list"

definition initial_ActiveCell_state :: ActiveCell_state where
  "initial_ActiveCell_state = \<lparr>cellBeforeUpdate = Null\<rparr>"

definition handleChange :: "(jsval \<Rightarrow> point list) \<Rightarrow> int \<Rightarrow> int \<Rightarrow> jsval \<Rightarrow> call list" where
  "handleChange getBindingsForCell r c new_cell =
     (let bindings = getBindingsForCell new_cell
      in [SetCellData \<lparr>row = r, column = c\<rparr> new_cell bindings])"

definition componentDidUpdate ::
  "ActiveCell_props \<Rightarrow> ActiveCell_props \<Rightarrow> ActiveCell_state \<Rightarrow> ActiveCell_state \<times> call list" where
  "componentDidUpdate prevProps props this_state =
     (if truthy (cell props) \<or> strict_eq (cell props) Undefined then
        (if mode_prop prevProps = Some View \<and> mode_prop props = Some Edit
         then (this_state\<lparr>cellBeforeUpdate := cell prevProps\<rparr>, [])
         else if mode_prop prevProps = Some Edit \<and> mode_prop prevProps \<noteq> mode_prop props
                 \<and> truthy (cell prevProps)
                 \<and> \<not> strict_eq (cell prevProps) (cellBeforeUpdate this_state)
         then (this_state,
               [Commit [\<lparr>prevCell = cellBeforeUpdate this_state, nextCell = cell prevProps\<rparr>]])
         else (this_state, []))
      else (this_state, []))"

text \<open>
  React calls \<open>componentDidUpdate\<close> after every update of the component, with the props
  from before the update. \<open>run_updates\<close> does so along a sequence of props, starting
  from the props before the first update, and collects the calls. The update that
  follows the component's own \<open>setState\<close> has the same props before and after; it is one
  more element of the sequence.
\<close>

fun run_updates ::
  "ActiveCell_props \<Rightarrow> ActiveCell_props list \<Rightarrow> ActiveCell_state \<Rightarrow> ActiveCell_state \<times> call list" where
  "run_updates prevProps [] this_state = (this_state, [])"
| "run_updates prevProps (props # rest) this_state =
     (let (s1, calls1) = componentDidUpdate prevProps props this_state;
          (s2, calls2) = run_updates props rest s1
      in (s2, calls1 @ calls2))"

section \<open>Formula resolution\<close>

text \<open>
  Modelled from the spec: \<open>isFormulaCell\<close>, \<open>extractFormula\<close>,
  \<open>getFormulaComputedValue\<close> and \<open>getComputedValue\<close> of \<open>util\<close>; the sources at
  hand hold their tests only. A formula cell is a cell whose \<open>value\<close> is a string that
  starts with the reserved prefix; the parser is a collaborator with one method, which
  returns a result and an error. Each function returns its value together with the
  formula texts the parser was called with, in order.
\<close>

definition FORMULA_VALUE_PREFIX :: string where
  "FORMULA_VALUE_PREFIX = ''=''"

record parse_result =
  result :: jsval
  parse_error :: jsval

type_synonym formula_parser = "string \<Rightarrow> parse_result"

definition isFormulaValue :: "jsval \<Rightarrow> bool" where
  "isFormulaValue v =
     (case v of
        JStr s \<Rightarrow> take (length FORMULA_VALUE_PREFIX) s = FORMULA_VALUE_PREFIX
      | _ \<Rightarrow> False)"

definition isFormulaCell :: "jsval \<Rightarrow> error + bool" where
  "isFormulaCell c =
     (case get_prop c ''value'' of Inl e \<Rightarrow> Inl e | Inr v \<Rightarrow> Inr (isFormulaValue v))"

definition extractFormula :: "string \<Rightarrow> string" where
  "extractFormula s = drop (length FORMULA_VALUE_PREFIX) s"

definition getFormulaComputedValue :: "jsval \<Rightarrow> formula_parser \<Rightarrow> error + jsval \<times> string list" where
  "getFormulaComputedValue c formulaParser =
     (case get_prop c ''value'' of
        Inr (JStr s) \<Rightarrow>
          (let formula = extractFormula s;
               r = formulaParser formula
           in Inr (if parse_error r \<noteq> Null then parse_error r else result r, [formula]))
      | _ \<Rightarrow> Inl TypeError)"

definition getComputedValue :: "jsval \<Rightarrow> formula_parser \<Rightarrow> error + jsval \<times> string list" where
  "getComputedValue c formulaParser =
     (if c = Undefined then Inr (Null, [])
      else case isFormulaCell c of
             Inl e \<Rightarrow> Inl e
           | Inr True \<Rightarrow> getFormulaComputedValue c formulaParser
           | Inr False \<Rightarrow>
               (case get_prop c ''value'' of Inl e \<Rightarrow> Inl e | Inr v \<Rightarrow> Inr (v, [])))"

section \<open>Example inputs\<close>

text \<open>A store with the one-row matrix \<open>[[<hole>, null]]\<close> at address 1.\<close>

definition store0 :: store where
  "store0 =
     \<lparr>row_at = (\<lambda>_. [])(0 := [None, Some Null]), matrix_at = (\<lambda>_. [])(1 := [Some 0]),
      next_addr = 2\<rparr>"

text \<open>
  The sheet \<open>[[{value: "A"}, <hole>, {value: "C"}]]\<close> with \<open>(0,0)\<close> copied and
  \<open>(0,1)\<close>, a slot inside the bounds that holds no cell, active.
\<close>

definition cellA :: jsval where "cellA = JObj 1 [(''value'', JStr ''A'')]"
definition cellB :: jsval where "cellB = JObj 2 [(''value'', JStr ''B'')]"
definition cellC :: jsval where "cellC = JObj 3 [(''value'', JStr ''C'')]"
definition cellD :: jsval where "cellD = JObj 4 [(''value'', JStr ''D'')]"

definition sparse_sheet :: state where
  "sparse_sheet =
     \<lparr>data = [Some [Some cellA, None, Some cellC]],
      active = Some \<lparr>row = 0, column = 1\<rparr>,
      selected = [\<lparr>row = 0, column = 0\<rparr>],
      copied = [\<lparr>row = 0, column = 0\<rparr>],
      mode = View, cut = Some False, hasPasted = Some False\<rparr>"

text \<open>
  A 2 by 2 sheet with its first row copied and \<open>(1,0)\<close> active.
\<close>

definition square_sheet :: state where
  "square_sheet =
     \<lparr>data = [Some [Some cellA, Some cellB], Some [Some cellC, Some cellD]],
      active = Some \<lparr>row = 1, column = 0\<rparr>,
      selected = [\<lparr>row = 0, column = 0\<rparr>, \<lparr>row = 0, column = 1\<rparr>],
      copied = [\<lparr>row = 0, column = 0\<rparr>, \<lparr>row = 0, column = 1\<rparr>],
      mode = View, cut = Some False, hasPasted = Some False\<rparr>"

text \<open>
  A stand-in for \<open>shrinkEdge\<close> and \<open>extendEdge\<close> where a closed term is needed; a key
  pressed without Shift never calls them.
\<close>

definition keep_edge :: edge_op where
  "keep_edge ps f delta = ps"

text \<open>A sheet of one row and two cells, both selected, the second one active.\<close>

definition row_sheet :: state where
  "row_sheet =
     \<lparr>data = [Some [Some cellA, Some cellB]],
      active = Some \<lparr>row = 0, column = 1\<rparr>,
      selected = [\<lparr>row = 0, column = 0\<rparr>, \<lparr>row = 0, column = 1\<rparr>],
      copied = [],
      mode = View, cut = None, hasPasted = None\<rparr>"

text \<open>The same sheet with no active point, as after mounting.\<close>

definition idle_sheet :: state where
  "idle_sheet =
     \<lparr>data = [Some [Some cellA, Some cellB]],
      active = None, selected = [], copied = [],
      mode = View, cut = None, hasPasted = None\<rparr>"

text \<open>A page with no listeners; cells and parsers for the scenarios of the spec.\<close>

definition empty_page :: page where
  "empty_page = \<lparr>document_listeners = [], store_subscribers = []\<rparr>"

definition cellX :: jsval where "cellX = JObj 10 [(''value'', JStr ''X'')]"
definition cellY :: jsval where "cellY = JObj 11 [(''value'', JStr ''Y'')]"

definition parser_true :: formula_parser where
  "parser_true f = \<lparr>result = JBool True, parse_error = Null\<rparr>"

definition parser_ref_error :: formula_parser where
  "parser_ref_error f = \<lparr>result = Null, parse_error = JStr ''#REF!''\<rparr>"

definition formula_cell :: jsval where
  "formula_cell = JObj 20 [(''value'', JStr ''=TRUE()'')]"

section \<open>Arrays and matrix access\<close>

lemma js_index_assign_same: "js_index (js_assign xs i v) (int i) = Some v"
  by (simp add: js_index_def js_assign_def nth_append)

lemma js_index_assign_other:
  "j \<noteq> int i \<Longrightarrow> js_index (js_assign xs i v) j = js_index xs j"
  by (auto simp: js_index_def js_assign_def nth_append nth_list_update)

lemma length_js_assign: "length (js_assign xs i v) = max (length xs) (Suc i)"
  by (simp add: js_assign_def)

lemma Matrix_get_set_same:
  "Matrix_get (int r) (int c) (Matrix_set r c v m) = v"
  by (simp add: Matrix_get_def Matrix_set_def Let_def js_index_assign_same read_slot_def)

lemma Matrix_has_truthy_get: "Matrix_has r c m = truthy (Matrix_get r c m)"
  by (simp add: Matrix_has_def Matrix_get_def split: option.splits)

lemma Matrix_has_iff:
  "Matrix_has r c m \<longleftrightarrow> (\<exists>xs v. js_index m r = Some xs \<and> js_index xs c = Some v \<and> truthy v)"
  by (auto simp: Matrix_has_def read_slot_def split: option.splits)

lemma js_index_Some:
  "js_index xs i = Some v \<Longrightarrow> 0 \<le> i \<and> nat i < length xs \<and> xs ! nat i = Some v"
  by (auto simp: js_index_def nat_less_iff split: if_splits)

lemma Matrix_has_in_range:
  assumes "Matrix_has r c m"
  shows "0 \<le> r \<and> 0 \<le> c \<and> nat r < length m \<and> (\<exists>xs. m ! nat r = Some xs \<and> nat c < length xs)"
proof -
  from assms obtain xs v where "js_index m r = Some xs" "js_index xs c = Some v"
    unfolding Matrix_has_iff by blast
  then show ?thesis by (auto dest: js_index_Some)
qed

lemma js_index_Nil: "js_index [] i = None"
  by (auto simp: js_index_def)

lemma js_index_spread_row:
  "js_index (spread_row xs) i = (if 0 \<le> i \<and> i < int (length xs) then Some (read_slot (js_index xs i)) else None)"
  by (auto simp: spread_row_def js_index_def nat_less_iff)

lemma read_slot_spread_row: "read_slot (js_index (spread_row xs) i) = read_slot (js_index xs i)"
  by (simp add: js_index_spread_row) (simp add: js_index_def read_slot_def)

lemma Matrix_get_set_other:
  assumes "r' \<noteq> int r \<or> c' \<noteq> int c"
  shows "Matrix_get r' c' (Matrix_set r c v m) = Matrix_get r' c' m"
proof (cases "r' = int r")
  case False
  then show ?thesis
    by (simp add: Matrix_get_def Matrix_set_def Let_def js_index_assign_other)
next
  case True
  with assms have c: "c' \<noteq> int c" by simp
  show ?thesis
  proof (cases "js_index m (int r)")
    case None
    have "js_index (js_assign [] c v) c' = js_index [] c'"
      using c by (rule js_index_assign_other)
    then have "read_slot (js_index (js_assign [] c v) c') = Undefined"
      by (simp add: js_index_Nil read_slot_def)
    then show ?thesis using True None
      by (simp add: Matrix_get_def Matrix_set_def Let_def js_index_assign_same)
  next
    case (Some old)
    then show ?thesis using True c
      by (simp add: Matrix_get_def Matrix_set_def Let_def js_index_assign_same js_index_assign_other
            read_slot_spread_row)
  qed
qed

lemma Matrix_get_set:
  "Matrix_get r' c' (Matrix_set r c v m) = (if r' = int r \<and> c' = int c then v else Matrix_get r' c' m)"
  using Matrix_get_set_other[of r' r c' c v m] Matrix_get_set_same[of r c v m] by auto

lemma shape_Matrix_set:
  assumes h: "Matrix_has r c m" and s: "shape d = shape m"
  shows "shape (Matrix_set (nat r) (nat c) v d) = shape d"
proof -
  from Matrix_has_in_range[OF h] obtain xs where
    r: "0 \<le> r" "nat r < length m" and xs: "m ! nat r = Some xs" "nat c < length xs" by blast
  from s have len: "length d = length m" unfolding shape_def by (metis length_map)
  from s r len have "map_option length (d ! nat r) = map_option length (m ! nat r)"
    unfolding shape_def by (metis nth_map)
  with xs obtain ys where ys: "d ! nat r = Some ys" "length ys = length xs" by auto
  have idx: "js_index d (int (nat r)) = Some ys"
    using r len ys by (simp add: js_index_def)
  have "Matrix_set (nat r) (nat c) v d = d[nat r := Some ((spread_row ys)[nat c := Some v])]"
    using idx r len ys xs by (simp add: Matrix_set_def Let_def js_assign_def spread_row_def)
  then have "shape (Matrix_set (nat r) (nat c) v d) = (shape d)[nat r := Some (length ys)]"
    by (simp add: shape_def map_update spread_row_def)
  moreover have "shape d ! nat r = Some (length ys)"
    using r len ys by (simp add: shape_def)
  ultimately show ?thesis
    by (simp add: list_update_same_conv[THEN iffD2] r len shape_def)
qed


lemma map_js_assign:
  "map (map_option f) (js_assign xs i v) = js_assign (map (map_option f) xs) i (f v)"
  by (simp add: js_assign_def map_update)

lemma js_index_map:
  "js_index (map (map_option f) xs) i = map_option f (js_index xs i)"
  by (auto simp: js_index_def nat_less_iff)

section \<open>\<open>set\<close> on the store\<close>

lemma Matrix_set_store_result:
  "Matrix_set_store r c v a s =
     (Suc (next_addr s),
      \<lparr>row_at = (row_at s)(next_addr s :=
           js_assign (case js_index (matrix_at s a) (int r) of
                        Some old \<Rightarrow> spread_row (row_at s old) | None \<Rightarrow> []) c v),
       matrix_at = (matrix_at s)(Suc (next_addr s) := js_assign (matrix_at s a) r (next_addr s)),
       next_addr = Suc (Suc (next_addr s))\<rparr>)"
  by (simp add: Matrix_set_store_def alloc_row_def alloc_matrix_def Let_def)

lemma Matrix_set_store_keeps:
  assumes "Matrix_set_store r c v a s = (a', s')" and "b < next_addr s"
  shows "row_at s' b = row_at s b \<and> matrix_at s' b = matrix_at s b"
  using assms by (auto simp: Matrix_set_store_result)

lemma map_rows_cong:
  assumes "list_all (\<lambda>e. case e of None \<Rightarrow> True | Some ra \<Rightarrow> f ra = g ra) xs"
  shows "map (map_option f) xs = map (map_option g) xs"
  using assms by (induction xs) (auto split: option.splits)

lemma Matrix_set_store_refines:
  assumes ok: "store_ok s a" and res: "Matrix_set_store r c v a s = (a', s')"
  shows "matrix_of s' a' = Matrix_set r c v (matrix_of s a)"
proof -
  let ?n = "next_addr s"
  let ?new = "js_assign (case js_index (matrix_at s a) (int r) of
                        Some old \<Rightarrow> spread_row (row_at s old) | None \<Rightarrow> []) c v"
  have rows: "row_at s' = (row_at s)(?n := ?new)"
    and mat: "matrix_at s' a' = js_assign (matrix_at s a) r ?n"
    using res by (auto simp: Matrix_set_store_result)
  have "list_all (\<lambda>e. case e of None \<Rightarrow> True | Some ra \<Rightarrow> row_at s' ra = row_at s ra) (matrix_at s a)"
    using ok unfolding store_ok_def rows
    by (auto simp: list_all_iff split: option.splits)
  then have same: "map (map_option (row_at s')) (matrix_at s a) = map (map_option (row_at s)) (matrix_at s a)"
    by (rule map_rows_cong)
  have "matrix_of s' a' = js_assign (matrix_of s a) r (row_at s' ?n)"
    by (simp add: matrix_of_def mat map_js_assign same)
  moreover have "row_at s' ?n = ?new" by (simp add: rows)
  moreover have "(case js_index (matrix_at s a) (int r) of
                        Some old \<Rightarrow> spread_row (row_at s old) | None \<Rightarrow> [])
       = (case js_index (matrix_of s a) (int r) of Some old \<Rightarrow> spread_row old | None \<Rightarrow> [])"
    by (simp add: matrix_of_def js_index_map split: option.splits)
  ultimately show ?thesis
    by (simp add: Matrix_set_def Let_def)
qed

text \<open>
  C4. For every matrix, value and indices \<open>r, c \<ge> 0\<close>, also beyond the size of the
  matrix, \<open>set\<close> returns a matrix (it has no failing branch) and \<open>get\<close> at \<open>(r, c)\<close> of
  the result is the value. The result reaches to row \<open>r\<close>; its other rows are those of
  the argument, so between the old end and row \<open>r\<close> there are empty slots, which read as
  rows without cells. On a store of arrays, \<open>set\<close> writes to the two arrays it allocates
  only: every array that was there, the argument among them, is as before, and the
  matrix returned is \<open>set\<close> of the argument.
\<close>

theorem set_then_get:
  "Matrix_get (int r) (int c) (Matrix_set r c v m) = v
   \<and> length (Matrix_set r c v m) = max (length m) (Suc r)
   \<and> (\<forall>i. i \<noteq> int r \<longrightarrow> js_index (Matrix_set r c v m) i = js_index m i)
   \<and> (store_ok s a \<and> Matrix_set_store r c v a s = (a', s') \<longrightarrow>
        matrix_of s' a' = Matrix_set r c v (matrix_of s a)
      \<and> matrix_of s' a = matrix_of s a
      \<and> (\<forall>b < next_addr s. row_at s' b = row_at s b \<and> matrix_at s' b = matrix_at s b))"
proof -
  have g: "Matrix_get (int r) (int c) (Matrix_set r c v m) = v"
    by (rule Matrix_get_set_same)
  have l: "length (Matrix_set r c v m) = max (length m) (Suc r)"
    by (simp add: Matrix_set_def Let_def length_js_assign)
  have o: "\<forall>i. i \<noteq> int r \<longrightarrow> js_index (Matrix_set r c v m) i = js_index m i"
    by (simp add: Matrix_set_def Let_def js_index_assign_other)
  have st: "matrix_of s' a' = Matrix_set r c v (matrix_of s a)
      \<and> matrix_of s' a = matrix_of s a
      \<and> (\<forall>b < next_addr s. row_at s' b = row_at s b \<and> matrix_at s' b = matrix_at s b)"
    if ok: "store_ok s a" and res: "Matrix_set_store r c v a s = (a', s')"
  proof -
    have keep: "\<forall>b < next_addr s. row_at s' b = row_at s b \<and> matrix_at s' b = matrix_at s b"
      using Matrix_set_store_keeps[OF res] by blast
    have "list_all (\<lambda>e. case e of None \<Rightarrow> True | Some ra \<Rightarrow> row_at s' ra = row_at s ra) (matrix_at s a)"
      using ok keep unfolding store_ok_def by (auto simp: list_all_iff split: option.splits)
    then have "map (map_option (row_at s')) (matrix_at s a) = map (map_option (row_at s)) (matrix_at s a)"
      by (rule map_rows_cong)
    moreover have "matrix_at s' a = matrix_at s a" using ok keep by (simp add: store_ok_def)
    ultimately have "matrix_of s' a = matrix_of s a" by (simp add: matrix_of_def)
    with keep Matrix_set_store_refines[OF ok res] show ?thesis by blast
  qed
  from g l o st show ?thesis by blast
qed

theorem set_then_get_witness:
  "store_ok store0 1
   \<and> matrix_of store0 1 = [Some [None, Some Null]]
   \<and> fst (Matrix_set_store 2 1 (JStr ''x'') 1 store0) = 3
   \<and> matrix_of (snd (Matrix_set_store 2 1 (JStr ''x'') 1 store0)) 3
       = [Some [None, Some Null], None, Some [None, Some (JStr ''x'')]]
   \<and> matrix_of (snd (Matrix_set_store 2 1 (JStr ''x'') 1 store0)) 1 = [Some [None, Some Null]]"
proof -
  have ok: "store_ok store0 1" by (simp add: store_ok_def store0_def)
  have m: "matrix_of store0 1 = [Some [None, Some Null]]" by (simp add: matrix_of_def store0_def)
  have f: "fst (Matrix_set_store 2 1 (JStr ''x'') 1 store0) = 3"
    by (simp add: Matrix_set_store_result store0_def)
  have res: "Matrix_set_store 2 1 (JStr ''x'') 1 store0
      = (3, snd (Matrix_set_store 2 1 (JStr ''x'') 1 store0))"
    using f by (simp add: prod_eq_iff)
  have "Matrix_set 2 1 (JStr ''x'') [Some [None, Some Null]]
      = [Some [None, Some Null], None, Some [None, Some (JStr ''x'')]]"
    by (simp add: Matrix_set_def js_index_def js_assign_def)
  with set_then_get[of 2 1 "JStr ''x''" "[]" store0 1 3 "snd (Matrix_set_store 2 1 (JStr ''x'') 1 store0)"]
    ok m f res show ?thesis by simp
qed

section \<open>Paste\<close>

lemma paste_step_Inr:
  assumes "active st = Some a"
  shows "paste_step st mr mc (Inr (d, sel)) p =
     (if Matrix_has (row (paste_target mr mc a p)) (column (paste_target mr mc a p)) (data st)
      then Inr (Matrix_set (nat (row (paste_target mr mc a p))) (nat (column (paste_target mr mc a p)))
                  (Matrix_get (row p) (column p) (data st)) d,
                PointSet_add sel (paste_target mr mc a p))
      else Inr (d, sel))"
  using assms by (simp add: paste_step_def paste_target_def Let_def)

lemma set_PointSet_add: "set (PointSet_add ps p) = insert p (set ps)"
  by (auto simp: PointSet_add_def)

lemma distinct_PointSet_add: "distinct ps \<Longrightarrow> distinct (PointSet_add ps p)"
  by (simp add: PointSet_add_def)

lemma paste_fold:
  assumes act: "active st = Some a"
  shows "shape d = shape (data st) \<Longrightarrow>
    \<exists>d' sel'. foldl (paste_step st mr mc) (Inr (d, sel)) ps = Inr (d', sel')
      \<and> shape d' = shape (data st)
      \<and> set sel' = set sel \<union> {t. \<exists>p\<in>set ps. t = paste_target mr mc a p
                                    \<and> Matrix_has (row t) (column t) (data st)}
      \<and> (distinct sel \<longrightarrow> distinct sel')
      \<and> (\<forall>r c. Matrix_get r c d' =
            (if (\<exists>p\<in>set ps. paste_target mr mc a p = \<lparr>row = r, column = c\<rparr>) \<and> Matrix_has r c (data st)
             then Matrix_get (r - row a + mr) (c - column a + mc) (data st)
             else Matrix_get r c d))"
proof (induction ps arbitrary: d sel)
  case Nil
  then show ?case by simp
next
  case (Cons p ps)
  let ?t = "paste_target mr mc a p"
  show ?case
  proof (cases "Matrix_has (row ?t) (column ?t) (data st)")
    case False
    then have step: "paste_step st mr mc (Inr (d, sel)) p = Inr (d, sel)"
      by (simp add: paste_step_Inr[OF act])
    from Cons.IH[OF Cons.prems, of sel] obtain d' sel' where
      f: "foldl (paste_step st mr mc) (Inr (d, sel)) ps = Inr (d', sel')"
      and sh: "shape d' = shape (data st)"
      and se: "set sel' = set sel \<union> {t. \<exists>p\<in>set ps. t = paste_target mr mc a p
                                    \<and> Matrix_has (row t) (column t) (data st)}"
      and di: "distinct sel \<longrightarrow> distinct sel'"
      and ge: "\<forall>r c. Matrix_get r c d' =
            (if (\<exists>p\<in>set ps. paste_target mr mc a p = \<lparr>row = r, column = c\<rparr>) \<and> Matrix_has r c (data st)
             then Matrix_get (r - row a + mr) (c - column a + mc) (data st)
             else Matrix_get r c d)"
      by blast
    have se': "set sel' = set sel \<union> {t. \<exists>q\<in>set (p # ps). t = paste_target mr mc a q
                                    \<and> Matrix_has (row t) (column t) (data st)}"
      using se False by auto
    have ge': "\<forall>r c. Matrix_get r c d' =
            (if (\<exists>q\<in>set (p # ps). paste_target mr mc a q = \<lparr>row = r, column = c\<rparr>) \<and> Matrix_has r c (data st)
             then Matrix_get (r - row a + mr) (c - column a + mc) (data st)
             else Matrix_get r c d)"
    proof (intro allI)
      fix r c
      have "\<not> (?t = \<lparr>row = r, column = c\<rparr> \<and> Matrix_has r c (data st))"
        using False by auto
      then show "Matrix_get r c d' =
            (if (\<exists>q\<in>set (p # ps). paste_target mr mc a q = \<lparr>row = r, column = c\<rparr>) \<and> Matrix_has r c (data st)
             then Matrix_get (r - row a + mr) (c - column a + mc) (data st)
             else Matrix_get r c d)"
        using ge by auto
    qed
    from f step sh se' di ge' show ?thesis by simp
  next
    case True
    let ?d1 = "Matrix_set (nat (row ?t)) (nat (column ?t)) (Matrix_get (row p) (column p) (data st)) d"
    let ?s1 = "PointSet_add sel ?t"
    have step: "paste_step st mr mc (Inr (d, sel)) p = Inr (?d1, ?s1)"
      using True by (simp add: paste_step_Inr[OF act])
    have sh1: "shape ?d1 = shape (data st)"
      using shape_Matrix_set[OF True Cons.prems] Cons.prems by simp
    from Cons.IH[OF sh1, of ?s1] obtain d' sel' where
      f: "foldl (paste_step st mr mc) (Inr (?d1, ?s1)) ps = Inr (d', sel')"
      and sh: "shape d' = shape (data st)"
      and se: "set sel' = set ?s1 \<union> {t. \<exists>p\<in>set ps. t = paste_target mr mc a p
                                    \<and> Matrix_has (row t) (column t) (data st)}"
      and di: "distinct ?s1 \<longrightarrow> distinct sel'"
      and ge: "\<forall>r c. Matrix_get r c d' =
            (if (\<exists>p\<in>set ps. paste_target mr mc a p = \<lparr>row = r, column = c\<rparr>) \<and> Matrix_has r c (data st)
             then Matrix_get (r - row a + mr) (c - column a + mc) (data st)
             else Matrix_get r c ?d1)"
      by blast
    have se': "set sel' = set sel \<union> {t. \<exists>q\<in>set (p # ps). t = paste_target mr mc a q
                                    \<and> Matrix_has (row t) (column t) (data st)}"
      using se True by (auto simp: set_PointSet_add)
    have di': "distinct sel \<longrightarrow> distinct sel'"
      using di distinct_PointSet_add by blast
    have nonneg: "0 \<le> row ?t" "0 \<le> column ?t"
      using Matrix_has_in_range[OF True] by auto
    have ge': "\<forall>r c. Matrix_get r c d' =
            (if (\<exists>q\<in>set (p # ps). paste_target mr mc a q = \<lparr>row = r, column = c\<rparr>) \<and> Matrix_has r c (data st)
             then Matrix_get (r - row a + mr) (c - column a + mc) (data st)
             else Matrix_get r c d)"
    proof (intro allI)
      fix r c
      show "Matrix_get r c d' =
            (if (\<exists>q\<in>set (p # ps). paste_target mr mc a q = \<lparr>row = r, column = c\<rparr>) \<and> Matrix_has r c (data st)
             then Matrix_get (r - row a + mr) (c - column a + mc) (data st)
             else Matrix_get r c d)"
      proof (cases "?t = \<lparr>row = r, column = c\<rparr>")
        case eq: True
        then have rc: "r = row p - mr + row a" "c = column p - mc + column a"
          by (auto simp: paste_target_def)
        have h: "Matrix_has r c (data st)" using True eq by (metis point.select_convs(1,2))
        have "Matrix_get r c ?d1 = Matrix_get (row p) (column p) (data st)"
          using nonneg eq by (simp add: Matrix_get_set)
        moreover have "r - row a + mr = row p" "c - column a + mc = column p"
          using rc by auto
        ultimately show ?thesis using ge h eq by auto
      next
        case ne: False
        then have "r \<noteq> int (nat (row ?t)) \<or> c \<noteq> int (nat (column ?t))"
          using nonneg by (cases ?t) auto
        then have "Matrix_get r c ?d1 = Matrix_get r c d"
          by (rule Matrix_get_set_other)
        then show ?thesis using ge ne by auto
      qed
    qed
    from f step sh se' di' ge' show ?thesis by simp
  qed
qed


lemma foldl_min_Min: "foldl min (x::int) xs = Min (insert x (set xs))"
proof -
  have "(\<lambda>a b. min b a) = (min :: int \<Rightarrow> int \<Rightarrow> int)"
    by (intro ext) (simp add: min.commute)
  then have "foldl min x xs = fold min xs x"
    by (simp add: foldl_conv_fold)
  also have "\<dots> = Min (set (x # xs))"
    by (rule Min.set_eq_fold[symmetric])
  finally show ?thesis by simp
qed

lemma getEdgeValue_min:
  assumes "ps \<noteq> []"
  shows "getEdgeValue ps f (- 1) = Min ((\<lambda>p. point_field p f) ` set ps)"
proof -
  from assms obtain p qs where ps: "ps = p # qs" by (cases ps) auto
  show ?thesis by (simp add: ps getEdgeValue_def foldl_min_Min)
qed

lemma handlePaste_result:
  assumes act: "active st = Some a"
    and mr: "minRow = getEdgeValue (copied st) RowField (- 1)"
    and mc: "minColumn = getEdgeValue (copied st) ColumnField (- 1)"
  shows "\<exists>st'. handlePaste st = Inr st'
     \<and> set (selected st') =
         {t. \<exists>p\<in>set (copied st). t = paste_target minRow minColumn a p
                \<and> Matrix_has (row t) (column t) (data st)}
     \<and> distinct (selected st')
     \<and> (\<forall>r c. Matrix_get r c (data st') =
           (if \<lparr>row = r, column = c\<rparr> \<in> set (selected st')
            then Matrix_get (r - row a + minRow) (c - column a + minColumn) (data st)
            else Matrix_get r c (data st)))
     \<and> shape (data st') = shape (data st)
     \<and> hasPasted st' = Some True \<and> cut st' = Some False \<and> mode st' = View
     \<and> active st' = active st \<and> copied st' = copied st"
proof -
  from paste_fold[OF act refl, of minRow minColumn "[]" "copied st"]
  obtain d' sel' where
    f: "foldl (paste_step st minRow minColumn) (Inr (data st, [])) (copied st) = Inr (d', sel')"
    and sh: "shape d' = shape (data st)"
    and se: "set sel' = {t. \<exists>p\<in>set (copied st). t = paste_target minRow minColumn a p
                                    \<and> Matrix_has (row t) (column t) (data st)}"
    and di: "distinct sel'"
    and ge: "\<forall>r c. Matrix_get r c d' =
            (if (\<exists>p\<in>set (copied st). paste_target minRow minColumn a p = \<lparr>row = r, column = c\<rparr>)
                \<and> Matrix_has r c (data st)
             then Matrix_get (r - row a + minRow) (c - column a + minColumn) (data st)
             else Matrix_get r c (data st))"
    by auto
  have mem: "\<lparr>row = r, column = c\<rparr> \<in> set sel' \<longleftrightarrow>
      (\<exists>p\<in>set (copied st). paste_target minRow minColumn a p = \<lparr>row = r, column = c\<rparr>)
                \<and> Matrix_has r c (data st)" for r c
    unfolding se by (simp, metis)
  let ?st' = "setState st (empty_patch
                    \<lparr>p_data := Some d', p_selected := Some sel', p_cut := Some False,
                     p_hasPasted := Some True, p_mode := Some View\<rparr>)"
  have hp: "handlePaste st = Inr ?st'"
    using f by (simp add: handlePaste_def Let_def PointSet_reduce_def PointSet_from_def mr mc)
  have flds: "data ?st' = d'" "selected ?st' = sel'" "hasPasted ?st' = Some True"
    "cut ?st' = Some False" "mode ?st' = View" "active ?st' = active st" "copied ?st' = copied st"
    by (simp_all add: setState_def empty_patch_def)
  show ?thesis
    apply (rule exI[of _ ?st'])
    apply (simp only: flds)
    using hp sh se di ge mem by simp
qed


text \<open>
  C1, as the code has it. With an active point, paste returns a state and raises
  nothing. Each copied point is moved by the active point minus the least row and
  column of the copied set. A target is written exactly when \<open>has\<close> accepts it in the
  data before the paste: a target outside the matrix is skipped, and so is a target
  inside the bounds whose slot is a hole or holds a falsy value. Every written target
  holds the cell that \<open>get\<close> reads at its source point in the data before the paste,
  every other point reads as before, and the matrix keeps its shape. The selection
  afterwards is exactly the set of written targets, and \<open>hasPasted\<close> is true, \<open>cut\<close>
  false and the mode \<open>view\<close>.
\<close>

theorem paste_writes_present_targets:
  assumes act: "active st = Some a"
    and mr: "minRow = getEdgeValue (copied st) RowField (- 1)"
    and mc: "minColumn = getEdgeValue (copied st) ColumnField (- 1)"
  shows "\<exists>st'. handlePaste st = Inr st'
     \<and> set (selected st') =
         {t. \<exists>p\<in>set (copied st). t = paste_target minRow minColumn a p
                \<and> Matrix_has (row t) (column t) (data st)}
     \<and> (\<forall>p\<in>set (copied st).
           Matrix_has (row (paste_target minRow minColumn a p))
                      (column (paste_target minRow minColumn a p)) (data st) \<longrightarrow>
           Matrix_get (row (paste_target minRow minColumn a p))
                      (column (paste_target minRow minColumn a p)) (data st')
             = Matrix_get (row p) (column p) (data st))
     \<and> (\<forall>r c. \<lparr>row = r, column = c\<rparr> \<notin> set (selected st') \<longrightarrow>
           Matrix_get r c (data st') = Matrix_get r c (data st))
     \<and> shape (data st') = shape (data st)
     \<and> hasPasted st' = Some True \<and> cut st' = Some False \<and> mode st' = View
     \<and> active st' = active st \<and> copied st' = copied st
     \<and> (copied st \<noteq> [] \<longrightarrow>
           minRow = Min (row ` set (copied st)) \<and> minColumn = Min (column ` set (copied st)))"
proof -
  from handlePaste_result[OF act mr mc] obtain st' where
    hp: "handlePaste st = Inr st'"
    and se: "set (selected st') =
         {t. \<exists>p\<in>set (copied st). t = paste_target minRow minColumn a p
                \<and> Matrix_has (row t) (column t) (data st)}"
    and ge: "\<forall>r c. Matrix_get r c (data st') =
           (if \<lparr>row = r, column = c\<rparr> \<in> set (selected st')
            then Matrix_get (r - row a + minRow) (c - column a + minColumn) (data st)
            else Matrix_get r c (data st))"
    and rest: "shape (data st') = shape (data st)" "hasPasted st' = Some True"
      "cut st' = Some False" "mode st' = View" "active st' = active st" "copied st' = copied st"
    by blast
  have written: "Matrix_get (row (paste_target minRow minColumn a p))
                      (column (paste_target minRow minColumn a p)) (data st')
             = Matrix_get (row p) (column p) (data st)"
    if p: "p \<in> set (copied st)"
      and h: "Matrix_has (row (paste_target minRow minColumn a p))
                      (column (paste_target minRow minColumn a p)) (data st)" for p
  proof -
    let ?t = "paste_target minRow minColumn a p"
    have "?t \<in> set (selected st')" using p h se by blast
    then have "\<lparr>row = row ?t, column = column ?t\<rparr> \<in> set (selected st')"
      by (simp add: paste_target_def)
    with ge have "Matrix_get (row ?t) (column ?t) (data st')
        = Matrix_get (row ?t - row a + minRow) (column ?t - column a + minColumn) (data st)"
      by presburger
    then show ?thesis by (simp add: paste_target_def)
  qed
  have other: "\<forall>r c. \<lparr>row = r, column = c\<rparr> \<notin> set (selected st') \<longrightarrow>
           Matrix_get r c (data st') = Matrix_get r c (data st)"
    using ge by simp
  have mins: "minRow = Min (row ` set (copied st)) \<and> minColumn = Min (column ` set (copied st))"
    if "copied st \<noteq> []"
  proof -
    have "(\<lambda>p. point_field p RowField) = row" "(\<lambda>p. point_field p ColumnField) = column"
      by (simp_all add: fun_eq_iff)
    then show ?thesis using getEdgeValue_min[OF that] mr mc by simp
  qed
  from hp se written other rest mins show ?thesis by blast
qed

text \<open>
  C1 as stated fails: in the sheet \<open>[[A, <hole>, C]]\<close> of one row and three columns
  the target \<open>(0,1)\<close> of the copied point \<open>(0,0)\<close> lies inside the bounds, and paste
  leaves it as it was instead of writing the copied cell.
\<close>

theorem paste_skips_slot_in_bounds_counterexample:
  "active sparse_sheet = Some \<lparr>row = 0, column = 1\<rparr>
   \<and> copied sparse_sheet = [\<lparr>row = 0, column = 0\<rparr>]
   \<and> getSize (data sparse_sheet) = \<lparr>columns = 3, rows = 1\<rparr>
   \<and> Matrix_get 0 0 (data sparse_sheet) = cellA
   \<and> handlePaste sparse_sheet = Inr (sparse_sheet\<lparr>selected := [], hasPasted := Some True\<rparr>)
   \<and> Matrix_get 0 1 (data (sparse_sheet\<lparr>selected := [], hasPasted := Some True\<rparr>)) = Undefined
   \<and> cellA \<noteq> Undefined"
  by (simp add: sparse_sheet_def cellA_def cellC_def getSize_def js_index_def Matrix_get_def
        read_slot_def handlePaste_def getEdgeValue_def PointSet_reduce_def PointSet_from_def
        paste_step_def Matrix_has_def setState_def empty_patch_def Let_def)

theorem paste_writes_present_targets_witness:
  "active square_sheet = Some \<lparr>row = 1, column = 0\<rparr>
   \<and> 0 = getEdgeValue (copied square_sheet) RowField (- 1)
   \<and> 0 = getEdgeValue (copied square_sheet) ColumnField (- 1)
   \<and> (\<exists>st'. handlePaste square_sheet = Inr st'
         \<and> set (selected st') = {\<lparr>row = 1, column = 0\<rparr>, \<lparr>row = 1, column = 1\<rparr>}
         \<and> Matrix_get 1 0 (data st') = cellA \<and> Matrix_get 1 1 (data st') = cellB
         \<and> Matrix_get 0 0 (data st') = cellA \<and> Matrix_get 0 1 (data st') = cellB
         \<and> shape (data st') = [Some 2, Some 2]
         \<and> hasPasted st' = Some True \<and> cut st' = Some False \<and> mode st' = View)"
proof -
  have act: "active square_sheet = Some \<lparr>row = 1, column = 0\<rparr>"
    by (simp add: square_sheet_def)
  have mr: "0 = getEdgeValue (copied square_sheet) RowField (- 1)"
    and mc: "0 = getEdgeValue (copied square_sheet) ColumnField (- 1)"
    by (simp_all add: square_sheet_def getEdgeValue_def)
  have cp: "set (copied square_sheet) = {\<lparr>row = 0, column = 0\<rparr>, \<lparr>row = 0, column = 1\<rparr>}"
    by (simp add: square_sheet_def)
  have t: "paste_target 0 0 \<lparr>row = 1, column = 0\<rparr> \<lparr>row = 0, column = 0\<rparr> = \<lparr>row = 1, column = 0\<rparr>"
    "paste_target 0 0 \<lparr>row = 1, column = 0\<rparr> \<lparr>row = 0, column = 1\<rparr> = \<lparr>row = 1, column = 1\<rparr>"
    by (simp_all add: paste_target_def)
  have h: "Matrix_has 1 0 (data square_sheet)" "Matrix_has 1 1 (data square_sheet)"
    by (simp_all add: square_sheet_def Matrix_has_def js_index_def read_slot_def cellC_def cellD_def)
  have g: "Matrix_get 0 0 (data square_sheet) = cellA" "Matrix_get 0 1 (data square_sheet) = cellB"
    by (simp_all add: square_sheet_def Matrix_get_def js_index_def read_slot_def)
  have sh: "shape (data square_sheet) = [Some 2, Some 2]"
    by (simp add: square_sheet_def shape_def)
  from paste_writes_present_targets[OF act mr mc] obtain st' where
    hp: "handlePaste square_sheet = Inr st'"
    and se: "set (selected st') =
         {t. \<exists>p\<in>set (copied square_sheet). t = paste_target 0 0 \<lparr>row = 1, column = 0\<rparr> p
                \<and> Matrix_has (row t) (column t) (data square_sheet)}"
    and wr: "\<forall>p\<in>set (copied square_sheet).
           Matrix_has (row (paste_target 0 0 \<lparr>row = 1, column = 0\<rparr> p))
                      (column (paste_target 0 0 \<lparr>row = 1, column = 0\<rparr> p)) (data square_sheet) \<longrightarrow>
           Matrix_get (row (paste_target 0 0 \<lparr>row = 1, column = 0\<rparr> p))
                      (column (paste_target 0 0 \<lparr>row = 1, column = 0\<rparr> p)) (data st')
             = Matrix_get (row p) (column p) (data square_sheet)"
    and ot: "\<forall>r c. \<lparr>row = r, column = c\<rparr> \<notin> set (selected st') \<longrightarrow>
           Matrix_get r c (data st') = Matrix_get r c (data square_sheet)"
    and rest: "shape (data st') = shape (data square_sheet)" "hasPasted st' = Some True"
      "cut st' = Some False" "mode st' = View"
    by blast
  have se': "set (selected st') = {\<lparr>row = 1, column = 0\<rparr>, \<lparr>row = 1, column = 1\<rparr>}"
    unfolding se cp using t h by auto
  have w: "Matrix_get 1 0 (data st') = cellA" "Matrix_get 1 1 (data st') = cellB"
    using wr[unfolded cp] t h g by auto
  have o: "Matrix_get 0 0 (data st') = cellA" "Matrix_get 0 1 (data st') = cellB"
    using ot se' g by auto
  from act mr mc hp se' w o rest sh show ?thesis by auto
qed


section \<open>The keyboard\<close>

lemma go_result:
  assumes "active st = Some a"
  shows "go dr dc ref st ev =
     (if Matrix_has (row a + dr) (column a + dc) (data st)
      then Inr (Some (empty_patch
             \<lparr>p_active := Some \<lparr>row = row a + dr, column = column a + dc\<rparr>,
              p_selected := Some [\<lparr>row = row a + dr, column = column a + dc\<rparr>],
              p_mode := Some View\<rparr>))
      else Inr (Some (empty_patch\<lparr>p_mode := Some View\<rparr>)))"
  using assms by (simp add: go_def Let_def PointSet_from_def)

lemma handleKeyDown_view_plain:
  assumes "mode st = View" and "\<not> shiftKey ev"
  shows "handleKeyDown shrinkEdge extendEdge ref st ev =
     (case map_of keyDownHandlers (key ev) of Some h \<Rightarrow> h ref st ev | None \<Rightarrow> Inr None)"
  using assms by (simp add: handleKeyDown_def)

lemma arrow_handlers:
  "map_of keyDownHandlers ''ArrowUp'' = Some (go (- 1) 0)"
  "map_of keyDownHandlers ''ArrowDown'' = Some (go 1 0)"
  "map_of keyDownHandlers ''ArrowLeft'' = Some (go 0 (- 1))"
  "map_of keyDownHandlers ''ArrowRight'' = Some (go 0 1)"
  "map_of keyDownHandlers ''Tab'' = Some (go 0 1)"
  "map_of keyDownHandlers ''Enter'' = Some Enter_handler"
  "map_of keyDownHandlers ''Backspace'' = Some Backspace_handler"
  by (simp_all add: keyDownHandlers_def)

text \<open>
  C3, as the code has it. In view mode with an active point, an arrow key or Tab
  pressed without Shift looks at the cell one step away. When \<open>has\<close> accepts that
  target in the data, the target becomes the active point and the only selected point.
  Otherwise the active point and the selection both stay as they were. Either way the
  mode is \<open>view\<close> and the data are untouched.
\<close>

theorem arrow_moves_or_stays:
  assumes view: "mode st = View" and act: "active st = Some a" and plain: "\<not> shiftKey ev"
    and arrow: "(key ev, dr, dc) \<in> {(''ArrowUp'', - 1, 0), (''ArrowDown'', 1, 0),
                  (''ArrowLeft'', 0, - 1), (''ArrowRight'', 0, 1), (''Tab'', 0, 1)}"
    and st': "st' = run_action st (handleKeyDown shrinkEdge extendEdge ref st ev)"
  shows "(if Matrix_has (row a + dr) (column a + dc) (data st)
          then active st' = Some \<lparr>row = row a + dr, column = column a + dc\<rparr>
             \<and> selected st' = [\<lparr>row = row a + dr, column = column a + dc\<rparr>]
          else active st' = Some a \<and> selected st' = selected st)
         \<and> mode st' = View \<and> data st' = data st"
proof -
  have "handleKeyDown shrinkEdge extendEdge ref st ev = go dr dc ref st ev"
    using arrow by (auto simp: handleKeyDown_view_plain[OF view plain] arrow_handlers)
  then show ?thesis
    using act view by (simp add: st' go_result[OF act] run_action_def setState_def empty_patch_def)
qed

text \<open>
  C3 as stated fails: with two cells selected and the last one active, ArrowRight has
  no target, and the selection afterwards is still the two cells, not the active point
  alone.
\<close>

theorem arrow_keeps_selection_counterexample:
  "mode row_sheet = View
   \<and> active row_sheet = Some \<lparr>row = 0, column = 1\<rparr>
   \<and> getSize (data row_sheet) = \<lparr>columns = 2, rows = 1\<rparr>
   \<and> selected (run_action row_sheet
        (handleKeyDown keep_edge keep_edge 0 row_sheet \<lparr>key = ''ArrowRight'', shiftKey = False\<rparr>))
       = [\<lparr>row = 0, column = 0\<rparr>, \<lparr>row = 0, column = 1\<rparr>]
   \<and> [\<lparr>row = 0, column = 0\<rparr>, \<lparr>row = 0, column = 1\<rparr>] \<noteq> [\<lparr>row = 0, column = 1\<rparr>]"
  by (simp add: row_sheet_def getSize_def js_index_def handleKeyDown_def keyDownHandlers_def
        go_def Matrix_has_def read_slot_def run_action_def setState_def empty_patch_def Let_def)

theorem arrow_moves_or_stays_witness:
  "mode row_sheet = View \<and> active row_sheet = Some \<lparr>row = 0, column = 1\<rparr>
   \<and> \<not> shiftKey \<lparr>key = ''ArrowLeft'', shiftKey = False\<rparr>
   \<and> Matrix_has 0 0 (data row_sheet)
   \<and> active (run_action row_sheet
        (handleKeyDown keep_edge keep_edge 0 row_sheet \<lparr>key = ''ArrowLeft'', shiftKey = False\<rparr>))
       = Some \<lparr>row = 0, column = 0\<rparr>
   \<and> selected (run_action row_sheet
        (handleKeyDown keep_edge keep_edge 0 row_sheet \<lparr>key = ''ArrowLeft'', shiftKey = False\<rparr>))
       = [\<lparr>row = 0, column = 0\<rparr>]
   \<and> mode (run_action row_sheet
        (handleKeyDown keep_edge keep_edge 0 row_sheet \<lparr>key = ''ArrowLeft'', shiftKey = False\<rparr>))
       = View"
proof -
  have view: "mode row_sheet = View" and act: "active row_sheet = Some \<lparr>row = 0, column = 1\<rparr>"
    by (simp_all add: row_sheet_def)
  have plain: "\<not> shiftKey \<lparr>key = ''ArrowLeft'', shiftKey = False\<rparr>" by simp
  have h: "Matrix_has 0 0 (data row_sheet)"
    by (simp add: row_sheet_def Matrix_has_def js_index_def read_slot_def cellA_def)
  have arrow: "(key \<lparr>key = ''ArrowLeft'', shiftKey = False\<rparr>, 0, - 1) \<in>
      {(''ArrowUp'', - 1, 0), (''ArrowDown'', 1, 0),
                  (''ArrowLeft'', 0, - 1), (''ArrowRight'', 0, 1), (''Tab'', 0, 1::int)}"
    by simp
  from arrow_moves_or_stays[OF view act plain arrow refl, of keep_edge keep_edge 0] h view act
  show ?thesis by simp
qed

text \<open>
  Without an active point the arrows, Tab and Backspace return \<open>null\<close>: both \<open>go\<close> and
  the Backspace handler test for the active point first.
\<close>

lemma navigation_without_active:
  assumes "active st = None" and "mode st = View" and "\<not> shiftKey ev"
    and "key ev \<in> {''ArrowUp'', ''ArrowDown'', ''ArrowLeft'', ''ArrowRight'', ''Tab'', ''Backspace''}"
  shows "handleKeyDown shrinkEdge extendEdge ref st ev = Inr None"
  using assms
  by (auto simp: handleKeyDown_def keyDownHandlers_def go_def Backspace_handler_def)

text \<open>
  C8 on the code. With no active point, in view mode, a key press does nothing, yet
  Enter returns the partial state that switches to edit mode, so the state changes; and
  Shift with an arrow throws a TypeError, reading a field of the missing active point.
\<close>

theorem enter_without_active_cell:
  "active idle_sheet = None \<and> mode idle_sheet = View
   \<and> handleKeyPress idle_sheet = None
   \<and> handleKeyDown shrinkEdge extendEdge ref idle_sheet \<lparr>key = ''Enter'', shiftKey = False\<rparr>
       = Inr (Some (empty_patch\<lparr>p_mode := Some Edit\<rparr>))
   \<and> mode (run_action idle_sheet
        (handleKeyDown shrinkEdge extendEdge ref idle_sheet \<lparr>key = ''Enter'', shiftKey = False\<rparr>))
       = Edit
   \<and> handleKeyDown shrinkEdge extendEdge ref idle_sheet \<lparr>key = ''ArrowUp'', shiftKey = True\<rparr>
       = Inl TypeError"
  by (simp add: idle_sheet_def handleKeyPress_def handleKeyDown_def keyDownHandlers_def
        shiftKeyDownHandlers_def Enter_handler_def modifyEdge_def run_action_def setState_def
        empty_patch_def)

section \<open>What \<open>has\<close> tests\<close>

text \<open>
  C10. \<open>has\<close> is true exactly when the row is there and the slot holds a truthy
  value. So after \<open>set\<close> with a falsy value \<open>has\<close> is false at that point although
  \<open>get\<close> returns the value; \<open>go\<close> answers a target whose cell is falsy as it answers a
  target outside the matrix, with the mode alone; and paste neither writes nor selects
  such a target.
\<close>

theorem has_is_truthiness:
  "(Matrix_has r c m \<longleftrightarrow>
      (\<exists>xs v. js_index m r = Some xs \<and> js_index xs c = Some v \<and> truthy v))
   \<and> (\<not> truthy v \<longrightarrow>
        \<not> Matrix_has (int i) (int j) (Matrix_set i j v m)
        \<and> Matrix_get (int i) (int j) (Matrix_set i j v m) = v)
   \<and> (active st = Some a \<and> \<not> truthy (Matrix_get (row a + dr) (column a + dc) (data st)) \<longrightarrow>
        go dr dc ref st ev = Inr (Some (empty_patch\<lparr>p_mode := Some View\<rparr>)))
   \<and> (active st = Some a \<and> p \<in> set (copied st)
        \<and> t = paste_target (getEdgeValue (copied st) RowField (- 1))
                 (getEdgeValue (copied st) ColumnField (- 1)) a p
        \<and> \<not> truthy (Matrix_get (row t) (column t) (data st)) \<longrightarrow>
        (\<exists>st'. handlePaste st = Inr st' \<and> t \<notin> set (selected st')
           \<and> Matrix_get (row t) (column t) (data st') = Matrix_get (row t) (column t) (data st)))"
proof -
  have paste: "\<exists>st'. handlePaste st = Inr st' \<and> t \<notin> set (selected st')
           \<and> Matrix_get (row t) (column t) (data st') = Matrix_get (row t) (column t) (data st)"
    if act: "active st = Some a"
      and t: "t = paste_target (getEdgeValue (copied st) RowField (- 1))
                 (getEdgeValue (copied st) ColumnField (- 1)) a p"
      and f: "\<not> truthy (Matrix_get (row t) (column t) (data st))"
  proof -
    from handlePaste_result[OF act refl refl] obtain st' where
      hp: "handlePaste st = Inr st'"
      and se: "set (selected st') =
         {t. \<exists>p\<in>set (copied st). t = paste_target (getEdgeValue (copied st) RowField (- 1))
                 (getEdgeValue (copied st) ColumnField (- 1)) a p
                \<and> Matrix_has (row t) (column t) (data st)}"
      and ge: "\<forall>r c. Matrix_get r c (data st') =
           (if \<lparr>row = r, column = c\<rparr> \<in> set (selected st')
            then Matrix_get (r - row a + getEdgeValue (copied st) RowField (- 1))
                   (c - column a + getEdgeValue (copied st) ColumnField (- 1)) (data st)
            else Matrix_get r c (data st))"
      by blast
    have nt: "t \<notin> set (selected st')"
      using f unfolding se by (simp add: Matrix_has_truthy_get)
    then have "\<lparr>row = row t, column = column t\<rparr> \<notin> set (selected st')"
      by (simp add: t paste_target_def)
    with ge have "Matrix_get (row t) (column t) (data st') = Matrix_get (row t) (column t) (data st)"
      by simp
    with hp nt show ?thesis by blast
  qed
  have goes: "go dr dc ref st ev = Inr (Some (empty_patch\<lparr>p_mode := Some View\<rparr>))"
    if "active st = Some a" and "\<not> truthy (Matrix_get (row a + dr) (column a + dc) (data st))"
    using that by (simp add: go_result Matrix_has_truthy_get)
  have falsy: "\<not> Matrix_has (int i) (int j) (Matrix_set i j v m)
        \<and> Matrix_get (int i) (int j) (Matrix_set i j v m) = v" if "\<not> truthy v"
    using that by (simp add: Matrix_has_truthy_get Matrix_get_set_same)
  from Matrix_has_iff[of r c m] falsy goes paste show ?thesis by blast
qed

theorem has_is_truthiness_witness:
  "\<not> truthy (JStr []) \<and> \<not> truthy (JNum 0) \<and> \<not> truthy (JBool False) \<and> \<not> truthy Null
   \<and> \<not> Matrix_has 0 1 (Matrix_set 0 1 (JNum 0) (data row_sheet))
   \<and> Matrix_get 0 1 (Matrix_set 0 1 (JNum 0) (data row_sheet)) = JNum 0
   \<and> active (sparse_sheet\<lparr>active := Some \<lparr>row = 0, column = 0\<rparr>\<rparr>) = Some \<lparr>row = 0, column = 0\<rparr>
   \<and> \<not> truthy (Matrix_get 0 1 (data sparse_sheet))
   \<and> go 0 1 0 (sparse_sheet\<lparr>active := Some \<lparr>row = 0, column = 0\<rparr>\<rparr>)
         \<lparr>key = ''ArrowRight'', shiftKey = False\<rparr>
       = Inr (Some (empty_patch\<lparr>p_mode := Some View\<rparr>))
   \<and> active sparse_sheet = Some \<lparr>row = 0, column = 1\<rparr>
   \<and> (\<exists>st'. handlePaste sparse_sheet = Inr st' \<and> \<lparr>row = 0, column = 1\<rparr> \<notin> set (selected st')
         \<and> Matrix_get 0 1 (data st') = Undefined)"
proof -
  have f: "\<not> truthy (JStr [])" "\<not> truthy (JNum 0)" "\<not> truthy (JBool False)" "\<not> truthy Null"
    by simp_all
  have act: "active sparse_sheet = Some \<lparr>row = 0, column = 1\<rparr>"
    and act': "active (sparse_sheet\<lparr>active := Some \<lparr>row = 0, column = 0\<rparr>\<rparr>)
        = Some \<lparr>row = 0, column = 0\<rparr>"
    and d: "data (sparse_sheet\<lparr>active := Some \<lparr>row = 0, column = 0\<rparr>\<rparr>) = data sparse_sheet"
    and cp: "\<lparr>row = 0, column = 0\<rparr> \<in> set (copied sparse_sheet)"
    by (simp_all add: sparse_sheet_def)
  have u: "Matrix_get 0 1 (data sparse_sheet) = Undefined"
    by (simp add: sparse_sheet_def Matrix_get_def js_index_def read_slot_def)
  have t: "\<lparr>row = 0, column = 1\<rparr> = paste_target (getEdgeValue (copied sparse_sheet) RowField (- 1))
                 (getEdgeValue (copied sparse_sheet) ColumnField (- 1)) \<lparr>row = 0, column = 1\<rparr>
                 \<lparr>row = 0, column = 0\<rparr>"
    by (simp add: sparse_sheet_def getEdgeValue_def paste_target_def)
  note moved = has_is_truthiness[where v = "JNum 0" and i = 0 and j = 1 and m = "data row_sheet"
      and st = "sparse_sheet\<lparr>active := Some \<lparr>row = 0, column = 0\<rparr>\<rparr>"
      and a = "\<lparr>row = 0, column = 0\<rparr>" and dr = 0 and dc = 1
      and ref = 0 and ev = "\<lparr>key = ''ArrowRight'', shiftKey = False\<rparr>"]
  note pasted = has_is_truthiness[where st = sparse_sheet and a = "\<lparr>row = 0, column = 1\<rparr>"
      and p = "\<lparr>row = 0, column = 0\<rparr>" and t = "\<lparr>row = 0, column = 1\<rparr>"]
  have "go 0 1 0 (sparse_sheet\<lparr>active := Some \<lparr>row = 0, column = 0\<rparr>\<rparr>)
         \<lparr>key = ''ArrowRight'', shiftKey = False\<rparr>
       = Inr (Some (empty_patch\<lparr>p_mode := Some View\<rparr>))"
    using moved act' d u by simp
  moreover have "\<not> Matrix_has 0 1 (Matrix_set 0 1 (JNum 0) (data row_sheet))
     \<and> Matrix_get 0 1 (Matrix_set 0 1 (JNum 0) (data row_sheet)) = JNum 0"
    using moved f by simp
  moreover have "\<exists>st'. handlePaste sparse_sheet = Inr st' \<and> \<lparr>row = 0, column = 1\<rparr> \<notin> set (selected st')
         \<and> Matrix_get 0 1 (data st') = Undefined"
    using pasted act cp u t by simp
  ultimately show ?thesis using f act act' u by simp
qed

section \<open>Unmounting\<close>

text \<open>
  C7 on the code. \<open>componentWillUnmount\<close> releases the store subscription and nothing
  else: the three listeners that \<open>componentDidMount\<close> added to the document are still
  there after the instance is unmounted, and they add up over instances.
\<close>

theorem unmount_leaves_document_listeners:
  "document_listeners (componentWillUnmount i (componentDidMount i pg))
     = document_listeners pg @ [(''copy'', i), (''cut'', i), (''paste'', i)]
   \<and> componentWillUnmount 0 (componentDidMount 0 empty_page)
     = \<lparr>document_listeners = [(''copy'', 0), (''cut'', 0), (''paste'', 0)], store_subscribers = []\<rparr>
   \<and> componentWillUnmount 1 (componentDidMount 1 (componentWillUnmount 0 (componentDidMount 0 empty_page)))
     = \<lparr>document_listeners = [(''copy'', 0), (''cut'', 0), (''paste'', 0),
                              (''copy'', 1), (''cut'', 1), (''paste'', 1)],
        store_subscribers = []\<rparr>"
  by (simp add: componentWillUnmount_def componentDidMount_def empty_page_def)

section \<open>The commit on leaving edit mode\<close>

lemma componentDidUpdate_same_mode:
  "mode_prop prevProps = mode_prop props \<Longrightarrow>
     componentDidUpdate prevProps props this_state = (this_state, [])"
  by (auto simp: componentDidUpdate_def)

lemma run_updates_inside_edit:
  assumes "mode_prop prevProps = Some Edit" and "\<forall>p\<in>set ps. mode_prop p = Some Edit"
  shows "run_updates prevProps ps this_state = (this_state, [])"
  using assms
  by (induction ps arbitrary: prevProps) (simp_all add: componentDidUpdate_same_mode)

lemma run_updates_append:
  "run_updates prevProps (ps @ qs) this_state =
     (let (s1, calls1) = run_updates prevProps ps this_state;
          (s2, calls2) = run_updates (last (prevProps # ps)) qs s1
      in (s2, calls1 @ calls2))"
  by (induction ps arbitrary: prevProps this_state) (auto simp: Let_def split: prod.splits)

lemma componentDidUpdate_enter:
  assumes "mode_prop prevProps = Some View" and "mode_prop props = Some Edit"
    and "truthy (cell props) \<or> cell props = Undefined"
  shows "componentDidUpdate prevProps props this_state
        = (this_state\<lparr>cellBeforeUpdate := cell prevProps\<rparr>, [])"
  using assms by (auto simp: componentDidUpdate_def)

lemma componentDidUpdate_leave:
  assumes "mode_prop prevProps = Some Edit" and "mode_prop props \<noteq> Some Edit"
    and "truthy (cell props) \<or> cell props = Undefined"
  shows "componentDidUpdate prevProps props this_state
        = (this_state,
           if truthy (cell prevProps) \<and> \<not> strict_eq (cell prevProps) (cellBeforeUpdate this_state)
           then [Commit [\<lparr>prevCell = cellBeforeUpdate this_state, nextCell = cell prevProps\<rparr>]]
           else [])"
  using assms by (auto simp: componentDidUpdate_def)

lemma edit_session:
  assumes v: "mode_prop before = Some View"
    and e: "\<forall>p\<in>set (entered # edits). mode_prop p = Some Edit"
    and l: "mode_prop left \<noteq> Some Edit"
    and g1: "truthy (cell entered) \<or> cell entered = Undefined"
    and g2: "truthy (cell left) \<or> cell left = Undefined"
  shows "run_updates before (entered # edits @ [left]) this_state
        = (this_state\<lparr>cellBeforeUpdate := cell before\<rparr>,
           if truthy (cell (last (entered # edits)))
              \<and> \<not> strict_eq (cell (last (entered # edits))) (cell before)
           then [Commit [\<lparr>prevCell = cell before, nextCell = cell (last (entered # edits))\<rparr>]]
           else [])"
proof -
  let ?s1 = "this_state\<lparr>cellBeforeUpdate := cell before\<rparr>"
  have en: "mode_prop entered = Some Edit" and ed: "\<forall>p\<in>set edits. mode_prop p = Some Edit"
    and la: "mode_prop (last (entered # edits)) = Some Edit"
    using e by (auto simp del: last.simps) (metis e last_in_set list.discI)
  have first: "componentDidUpdate before entered this_state = (?s1, [])"
    by (rule componentDidUpdate_enter[OF v en g1])
  have mid: "run_updates entered edits ?s1 = (?s1, [])"
    by (rule run_updates_inside_edit[OF en ed])
  have fin: "componentDidUpdate (last (entered # edits)) left ?s1
        = (?s1,
           if truthy (cell (last (entered # edits)))
              \<and> \<not> strict_eq (cell (last (entered # edits))) (cell before)
           then [Commit [\<lparr>prevCell = cell before, nextCell = cell (last (entered # edits))\<rparr>]]
           else [])"
    using componentDidUpdate_leave[OF la l g2, of ?s1] by simp
  have "run_updates entered (edits @ [left]) ?s1
        = (?s1,
           if truthy (cell (last (entered # edits)))
              \<and> \<not> strict_eq (cell (last (entered # edits))) (cell before)
           then [Commit [\<lparr>prevCell = cell before, nextCell = cell (last (entered # edits))\<rparr>]]
           else [])"
    unfolding run_updates_append mid using fin by (simp del: last.simps)
  then show ?thesis using first by (simp del: last.simps)
qed

text \<open>
  C6, as the code has it. An edit session is a sequence of updates: one that enters
  edit mode from view mode, any number of updates inside edit mode (the changes of the
  cell, and the update after the component's own \<open>setState\<close>), and one that leaves edit
  mode; the current cell is truthy or \<open>undefined\<close> at the entering and at the leaving
  update. Over the whole session the snapshot is the cell of the props before the
  entering update, and the calls are exactly one \<open>commit\<close>, with the single record of
  the snapshot and the cell just before the leaving update, when that cell is truthy
  and is not the snapshot itself (by reference); otherwise there is no call at all.
  Update by update: an update that keeps the mode changes nothing and calls nothing,
  the entering update stores the snapshot, the leaving update commits as said. The
  commit carries the record alone: \<open>getBindingsForCell\<close> is called by \<open>handleChange\<close>,
  which hands its result to \<open>setCellData\<close> with the changed cell.
\<close>

theorem commit_on_leaving_edit:
  "(mode_prop before = Some View \<and> (\<forall>p\<in>set (entered # edits). mode_prop p = Some Edit)
      \<and> mode_prop left \<noteq> Some Edit
      \<and> (truthy (cell entered) \<or> cell entered = Undefined)
      \<and> (truthy (cell left) \<or> cell left = Undefined) \<longrightarrow>
      run_updates before (entered # edits @ [left]) this_state
        = (this_state\<lparr>cellBeforeUpdate := cell before\<rparr>,
           if truthy (cell (last (entered # edits)))
              \<and> \<not> strict_eq (cell (last (entered # edits))) (cell before)
           then [Commit [\<lparr>prevCell = cell before, nextCell = cell (last (entered # edits))\<rparr>]]
           else []))
   \<and> (mode_prop prevProps = mode_prop props \<longrightarrow>
        componentDidUpdate prevProps props this_state = (this_state, []))
   \<and> (mode_prop prevProps = Some View \<and> mode_prop props = Some Edit
      \<and> (truthy (cell props) \<or> cell props = Undefined) \<longrightarrow>
      componentDidUpdate prevProps props this_state
        = (this_state\<lparr>cellBeforeUpdate := cell prevProps\<rparr>, []))
   \<and> (mode_prop prevProps = Some Edit \<and> mode_prop props \<noteq> Some Edit
      \<and> (truthy (cell props) \<or> cell props = Undefined) \<longrightarrow>
      componentDidUpdate prevProps props this_state
        = (this_state,
           if truthy (cell prevProps) \<and> \<not> strict_eq (cell prevProps) (cellBeforeUpdate this_state)
           then [Commit [\<lparr>prevCell = cellBeforeUpdate this_state, nextCell = cell prevProps\<rparr>]]
           else []))
   \<and> handleChange getBindingsForCell r c new_cell
        = [SetCellData \<lparr>row = r, column = c\<rparr> new_cell (getBindingsForCell new_cell)]"
  using edit_session[of before entered edits left this_state]
    componentDidUpdate_same_mode[of prevProps props this_state]
    componentDidUpdate_enter[of prevProps props this_state]
    componentDidUpdate_leave[of prevProps props this_state]
  by (simp add: handleChange_def del: last.simps)

text \<open>
  C6 as stated fails: a cell that is \<open>undefined\<close> just before the mode change differs
  from the snapshot, and no commit is made; and the commit that is made for a changed
  cell is a call with the record and no bindings.
\<close>

theorem commit_needs_truthy_cell_counterexample:
  "\<not> strict_eq Undefined cellX
   \<and> componentDidUpdate \<lparr>cell = Undefined, mode_prop = Some Edit\<rparr>
        \<lparr>cell = Undefined, mode_prop = Some View\<rparr> \<lparr>cellBeforeUpdate = cellX\<rparr>
       = (\<lparr>cellBeforeUpdate = cellX\<rparr>, [])
   \<and> \<not> strict_eq cellY cellX
   \<and> componentDidUpdate \<lparr>cell = cellY, mode_prop = Some Edit\<rparr>
        \<lparr>cell = cellY, mode_prop = Some View\<rparr> \<lparr>cellBeforeUpdate = cellX\<rparr>
       = (\<lparr>cellBeforeUpdate = cellX\<rparr>, [Commit [\<lparr>prevCell = cellX, nextCell = cellY\<rparr>]])"
  by (simp add: componentDidUpdate_def cellX_def cellY_def)

text \<open>
  The scenario of the spec: edit mode is entered on the cell \<open>{value: "X"}\<close>, the
  component updates once more after storing the snapshot, the cell is changed to
  \<open>{value: "Y"}\<close>, and edit mode is left. One commit is made, from X to Y. A session
  without a change makes none.
\<close>

theorem commit_on_leaving_edit_witness:
  "mode_prop \<lparr>cell = cellX, mode_prop = Some View\<rparr> = Some View
   \<and> truthy cellX \<and> truthy cellY \<and> \<not> strict_eq cellY cellX
   \<and> run_updates \<lparr>cell = cellX, mode_prop = Some View\<rparr>
        [\<lparr>cell = cellX, mode_prop = Some Edit\<rparr>, \<lparr>cell = cellX, mode_prop = Some Edit\<rparr>,
         \<lparr>cell = cellY, mode_prop = Some Edit\<rparr>, \<lparr>cell = cellY, mode_prop = Some View\<rparr>]
        initial_ActiveCell_state
       = (\<lparr>cellBeforeUpdate = cellX\<rparr>, [Commit [\<lparr>prevCell = cellX, nextCell = cellY\<rparr>]])
   \<and> run_updates \<lparr>cell = cellX, mode_prop = Some View\<rparr>
        [\<lparr>cell = cellX, mode_prop = Some Edit\<rparr>, \<lparr>cell = cellX, mode_prop = Some View\<rparr>]
        initial_ActiveCell_state
       = (\<lparr>cellBeforeUpdate = cellX\<rparr>, [])
   \<and> componentDidUpdate \<lparr>cell = cellX, mode_prop = Some Edit\<rparr>
        \<lparr>cell = cellY, mode_prop = Some Edit\<rparr> \<lparr>cellBeforeUpdate = cellX\<rparr>
       = (\<lparr>cellBeforeUpdate = cellX\<rparr>, [])"
proof -
  have t: "truthy cellX" "truthy cellY" "\<not> strict_eq cellY cellX" "strict_eq cellX cellX"
    by (simp_all add: cellX_def cellY_def)
  note changed = commit_on_leaving_edit[where before = "\<lparr>cell = cellX, mode_prop = Some View\<rparr>"
      and entered = "\<lparr>cell = cellX, mode_prop = Some Edit\<rparr>"
      and edits = "[\<lparr>cell = cellX, mode_prop = Some Edit\<rparr>, \<lparr>cell = cellY, mode_prop = Some Edit\<rparr>]"
      and left = "\<lparr>cell = cellY, mode_prop = Some View\<rparr>"
      and this_state = initial_ActiveCell_state]
  note unchanged = commit_on_leaving_edit[where before = "\<lparr>cell = cellX, mode_prop = Some View\<rparr>"
      and entered = "\<lparr>cell = cellX, mode_prop = Some Edit\<rparr>"
      and edits = "[]"
      and left = "\<lparr>cell = cellX, mode_prop = Some View\<rparr>"
      and this_state = initial_ActiveCell_state]
  note inside = commit_on_leaving_edit[where prevProps = "\<lparr>cell = cellX, mode_prop = Some Edit\<rparr>"
      and props = "\<lparr>cell = cellY, mode_prop = Some Edit\<rparr>"
      and this_state = "\<lparr>cellBeforeUpdate = cellX\<rparr>"]
  have a: "run_updates \<lparr>cell = cellX, mode_prop = Some View\<rparr>
        [\<lparr>cell = cellX, mode_prop = Some Edit\<rparr>, \<lparr>cell = cellX, mode_prop = Some Edit\<rparr>,
         \<lparr>cell = cellY, mode_prop = Some Edit\<rparr>, \<lparr>cell = cellY, mode_prop = Some View\<rparr>]
        initial_ActiveCell_state
       = (\<lparr>cellBeforeUpdate = cellX\<rparr>, [Commit [\<lparr>prevCell = cellX, nextCell = cellY\<rparr>]])"
    using changed t by (simp add: initial_ActiveCell_state_def del: run_updates.simps)
  have b: "run_updates \<lparr>cell = cellX, mode_prop = Some View\<rparr>
        [\<lparr>cell = cellX, mode_prop = Some Edit\<rparr>, \<lparr>cell = cellX, mode_prop = Some View\<rparr>]
        initial_ActiveCell_state
       = (\<lparr>cellBeforeUpdate = cellX\<rparr>, [])"
    using unchanged t by (simp add: initial_ActiveCell_state_def del: run_updates.simps)
  have c: "componentDidUpdate \<lparr>cell = cellX, mode_prop = Some Edit\<rparr>
        \<lparr>cell = cellY, mode_prop = Some Edit\<rparr> \<lparr>cellBeforeUpdate = cellX\<rparr>
       = (\<lparr>cellBeforeUpdate = cellX\<rparr>, [])"
    using inside by simp
  from a b c t show ?thesis by simp
qed

section \<open>The computed value of a cell\<close>

text \<open>
  C5. \<open>getComputedValue\<close> returns \<open>null\<close> for an undefined cell and the raw value for a
  cell that is not a formula cell, in both cases without a call of the parser. For a
  formula cell it calls the parser once, on the value without the prefix, and returns
  the error of the parse when that is not \<open>null\<close> and the result otherwise.
\<close>

theorem getComputedValue_cases:
  "getComputedValue Undefined formulaParser = Inr (Null, [])
   \<and> (isFormulaCell c = Inr False \<longrightarrow>
        (\<exists>v. get_prop c ''value'' = Inr v \<and> getComputedValue c formulaParser = Inr (v, [])))
   \<and> (isFormulaCell c = Inr True \<longrightarrow>
        (\<exists>s. get_prop c ''value'' = Inr (JStr s)
           \<and> take (length FORMULA_VALUE_PREFIX) s = FORMULA_VALUE_PREFIX
           \<and> getComputedValue c formulaParser =
               Inr (if parse_error (formulaParser (extractFormula s)) \<noteq> Null
                    then parse_error (formulaParser (extractFormula s))
                    else result (formulaParser (extractFormula s)),
                    [extractFormula s])))
   \<and> extractFormula (FORMULA_VALUE_PREFIX @ f) = f"
proof -
  have und: "getComputedValue Undefined formulaParser = Inr (Null, [])"
    by (simp add: getComputedValue_def)
  have plain: "\<exists>v. get_prop c ''value'' = Inr v \<and> getComputedValue c formulaParser = Inr (v, [])"
    if "isFormulaCell c = Inr False"
    using that
    by (cases c) (auto simp: getComputedValue_def isFormulaCell_def split: sum.splits)
  have formula: "\<exists>s. get_prop c ''value'' = Inr (JStr s)
           \<and> take (length FORMULA_VALUE_PREFIX) s = FORMULA_VALUE_PREFIX
           \<and> getComputedValue c formulaParser =
               Inr (if parse_error (formulaParser (extractFormula s)) \<noteq> Null
                    then parse_error (formulaParser (extractFormula s))
                    else result (formulaParser (extractFormula s)),
                    [extractFormula s])"
    if f: "isFormulaCell c = Inr True"
  proof -
    from f obtain v where v: "get_prop c ''value'' = Inr v" "isFormulaValue v"
      by (auto simp: isFormulaCell_def split: sum.splits)
    then obtain s where s: "v = JStr s" "take (length FORMULA_VALUE_PREFIX) s = FORMULA_VALUE_PREFIX"
      by (cases v) (auto simp: isFormulaValue_def)
    have "c \<noteq> Undefined" using v by auto
    then show ?thesis using f v s
      by (simp add: getComputedValue_def getFormulaComputedValue_def Let_def)
  qed
  have "extractFormula (FORMULA_VALUE_PREFIX @ f) = f"
    by (simp add: extractFormula_def)
  with und plain formula show ?thesis by blast
qed

theorem getComputedValue_cases_witness:
  "isFormulaCell formula_cell = Inr True
   \<and> getComputedValue formula_cell parser_true = Inr (JBool True, [''TRUE()''])
   \<and> getComputedValue formula_cell parser_ref_error = Inr (JStr ''#REF!'', [''TRUE()''])
   \<and> isFormulaCell cellX = Inr False
   \<and> getComputedValue cellX parser_true = Inr (JStr ''X'', [])"
proof -
  have f: "isFormulaCell formula_cell = Inr True" "isFormulaCell cellX = Inr False"
    and g: "get_prop formula_cell ''value'' = Inr (JStr ''=TRUE()'')"
       "get_prop cellX ''value'' = Inr (JStr ''X'')"
    and e: "extractFormula ''=TRUE()'' = ''TRUE()''"
    by (simp_all add: isFormulaCell_def isFormulaValue_def formula_cell_def cellX_def
          FORMULA_VALUE_PREFIX_def extractFormula_def)
  from getComputedValue_cases[of parser_true formula_cell] f g e
  have a: "getComputedValue formula_cell parser_true = Inr (JBool True, [''TRUE()''])"
    by (auto simp: parser_true_def)
  from getComputedValue_cases[of parser_ref_error formula_cell] f g e
  have b: "getComputedValue formula_cell parser_ref_error = Inr (JStr ''#REF!'', [''TRUE()''])"
    by (auto simp: parser_ref_error_def)
  from getComputedValue_cases[of parser_true cellX] f g
  have c: "getComputedValue cellX parser_true = Inr (JStr ''X'', [])"
    by auto
  from f a b c show ?thesis by simp
qed


section \<open>The inclusive range\<close>

lemma util_range_past:
  "a \<noteq> b \<Longrightarrow> util_range (b + sgn (b - a)) a = inclusive_span a b"
  by (auto simp: util_range_def inclusive_span_def sgn_if)

lemma inclusive_span_same: "inclusive_span a a = [a]"
  by (simp add: inclusive_span_def)

lemma set_inclusive_span: "set (inclusive_span a b) = {min a b..max a b}"
  by (auto simp: inclusive_span_def)

lemma distinct_inclusive_span: "distinct (inclusive_span a b)"
  by (simp add: inclusive_span_def)

lemma inclusive_span_ends:
  "inclusive_span a b \<noteq> [] \<and> hd (inclusive_span a b) = a \<and> last (inclusive_span a b) = b"
proof (cases "a \<le> b")
  case True
  have fst_eq: "[a..b] = a # [a + 1..b]" using True by (simp add: upto_rec1)
  have lst_eq: "[a..b] = [a..b - 1] @ [b]" using True by (simp add: upto_rec2)
  have "hd [a..b] = a" by (subst fst_eq) simp
  moreover have "last [a..b] = b" by (subst lst_eq) simp
  moreover have "[a..b] \<noteq> []" by (subst fst_eq) simp
  ultimately show ?thesis using True by (simp add: inclusive_span_def)
next
  case False
  have fst_eq: "[b..a] = b # [b + 1..a]" using False by (simp add: upto_rec1)
  have lst_eq: "[b..a] = [b..a - 1] @ [a]" using False by (simp add: upto_rec2)
  have "hd [b..a] = b" by (subst fst_eq) simp
  moreover have "last [b..a] = a" by (subst lst_eq) simp
  moreover have "[b..a] \<noteq> []" by (subst fst_eq) simp
  ultimately show ?thesis using False by (simp add: inclusive_span_def hd_rev last_rev)
qed

lemma inclusiveRange_eq:
  "inclusiveRange endPoint startPoint =
     (if row startPoint = row endPoint \<and> column startPoint = column endPoint then []
      else rectangle_points startPoint endPoint)"
proof -
  have sg: "x + sgn (x - y) = y \<longleftrightarrow> x = y" for x y :: int
    by (auto simp: sgn_if)
  show ?thesis
    by (auto simp: inclusiveRange_def Matrix_range_def flatMap_def rectangle_points_def Let_def
          util_range_past inclusive_span_same sg eq_commute[of "row startPoint"] eq_commute[of "column startPoint"])
qed

lemma set_rectangle_points:
  "set (rectangle_points s e) =
     {p. min (row s) (row e) \<le> row p \<and> row p \<le> max (row s) (row e)
       \<and> min (column s) (column e) \<le> column p \<and> column p \<le> max (column s) (column e)}"
proof -
  have "p \<in> set (rectangle_points s e) \<longleftrightarrow>
      row p \<in> {min (row s) (row e)..max (row s) (row e)}
      \<and> column p \<in> {min (column s) (column e)..max (column s) (column e)}" for p :: point
    unfolding rectangle_points_def set_concat set_map set_inclusive_span[symmetric]
    by (cases p) auto
  then show ?thesis by auto
qed

lemma distinct_rectangle_points: "distinct (rectangle_points s e)"
  unfolding rectangle_points_def
  using inclusive_span_ends[of "column s" "column e"]
  by (intro distinct_concat)
     (auto simp: distinct_map distinct_inclusive_span inj_on_def)

lemma rectangle_points_ends:
  "rectangle_points s e \<noteq> [] \<and> hd (rectangle_points s e) = s \<and> last (rectangle_points s e) = e"
proof -
  let ?rs = "inclusive_span (row s) (row e)" and ?cs = "inclusive_span (column s) (column e)"
  let ?f = "\<lambda>r. map (\<lambda>c. \<lparr>row = r, column = c\<rparr>) ?cs"
  from inclusive_span_ends[of "row s" "row e"] obtain rs' where
    r1: "?rs = row s # rs'" by (cases ?rs) auto
  from inclusive_span_ends[of "row s" "row e"] obtain rs'' where
    r2: "?rs = rs'' @ [row e]" by (metis append_butlast_last_id)
  from inclusive_span_ends[of "column s" "column e"] obtain cs' where
    c1: "?cs = column s # cs'" by (cases ?cs) auto
  from inclusive_span_ends[of "column s" "column e"] obtain cs'' where
    c2: "?cs = cs'' @ [column e]" by (metis append_butlast_last_id)
  have h: "hd (rectangle_points s e) = s"
    unfolding rectangle_points_def by (subst r1, subst c1) simp
  have l: "last (rectangle_points s e) = e"
    unfolding rectangle_points_def by (subst r2, subst c2) simp
  have "rectangle_points s e \<noteq> []"
    unfolding rectangle_points_def by (subst r1, subst c1) simp
  with h l show ?thesis by simp
qed

text \<open>
  C9, as the code has it. For two distinct corners, in either orientation, the
  inclusive range is the list of the points of the rectangle they span: the rows
  outermost, rows and columns both running from the start corner to the end corner. It
  holds every point of the rectangle once, the start corner first and the end corner
  last.
\<close>

theorem inclusiveRange_rectangle:
  "startPoint \<noteq> endPoint \<longrightarrow>
     inclusiveRange endPoint startPoint = rectangle_points startPoint endPoint
     \<and> set (inclusiveRange endPoint startPoint) =
          {p. min (row startPoint) (row endPoint) \<le> row p
              \<and> row p \<le> max (row startPoint) (row endPoint)
              \<and> min (column startPoint) (column endPoint) \<le> column p
              \<and> column p \<le> max (column startPoint) (column endPoint)}
     \<and> distinct (inclusiveRange endPoint startPoint)
     \<and> hd (inclusiveRange endPoint startPoint) = startPoint
     \<and> last (inclusiveRange endPoint startPoint) = endPoint"
proof -
  have "startPoint = endPoint \<longleftrightarrow>
      row startPoint = row endPoint \<and> column startPoint = column endPoint"
    by (cases startPoint, cases endPoint) simp
  then have eq: "inclusiveRange endPoint startPoint =
     (if startPoint = endPoint then [] else rectangle_points startPoint endPoint)"
    by (simp add: inclusiveRange_eq)
  then show ?thesis
    using set_rectangle_points[of startPoint endPoint] distinct_rectangle_points[of startPoint endPoint]
      rectangle_points_ends[of startPoint endPoint]
    by simp
qed

text \<open>
  C9 as stated fails where the two corners coincide: the sign of the difference is 0,
  the end corner is not moved, and \<open>range\<close> of a point and itself is empty, so the
  corner itself is missing from the result.
\<close>

theorem inclusiveRange_coinciding_corners_counterexample:
  "inclusiveRange \<lparr>row = 1, column = 2\<rparr> \<lparr>row = 1, column = 2\<rparr> = []
   \<and> \<lparr>row = 1, column = 2\<rparr> \<notin> set (inclusiveRange \<lparr>row = 1, column = 2\<rparr> \<lparr>row = 1, column = 2\<rparr>)"
  by (simp add: inclusiveRange_def Matrix_range_def flatMap_def)

theorem inclusiveRange_rectangle_witness:
  "\<lparr>row = 1, column = 2\<rparr> \<noteq> \<lparr>row = 0, column = 0\<rparr>
   \<and> inclusiveRange \<lparr>row = 0, column = 0\<rparr> \<lparr>row = 1, column = 2\<rparr>
      = [\<lparr>row = 1, column = 2\<rparr>, \<lparr>row = 1, column = 1\<rparr>, \<lparr>row = 1, column = 0\<rparr>,
         \<lparr>row = 0, column = 2\<rparr>, \<lparr>row = 0, column = 1\<rparr>, \<lparr>row = 0, column = 0\<rparr>]
   \<and> inclusiveRange \<lparr>row = 1, column = 2\<rparr> \<lparr>row = 0, column = 0\<rparr>
      = [\<lparr>row = 0, column = 0\<rparr>, \<lparr>row = 0, column = 1\<rparr>, \<lparr>row = 0, column = 2\<rparr>,
         \<lparr>row = 1, column = 0\<rparr>, \<lparr>row = 1, column = 1\<rparr>, \<lparr>row = 1, column = 2\<rparr>]
   \<and> hd (inclusiveRange \<lparr>row = 0, column = 0\<rparr> \<lparr>row = 1, column = 2\<rparr>) = \<lparr>row = 1, column = 2\<rparr>
   \<and> last (inclusiveRange \<lparr>row = 0, column = 0\<rparr> \<lparr>row = 1, column = 2\<rparr>) = \<lparr>row = 0, column = 0\<rparr>"
proof -
  have ne: "\<lparr>row = 1, column = 2\<rparr> \<noteq> \<lparr>row = 0, column = (0::int)\<rparr>" by simp
  have sp: "inclusive_span 1 0 = [1, 0]" "inclusive_span 2 0 = [2, 1, 0]"
    "inclusive_span 0 1 = [0, 1]" "inclusive_span 0 2 = [0, 1, 2]"
    by (simp_all add: inclusive_span_def upto_rec1)
  from inclusiveRange_rectangle[of "\<lparr>row = 0, column = 0\<rparr>" "\<lparr>row = 1, column = 2\<rparr>"]
    inclusiveRange_rectangle[of "\<lparr>row = 1, column = 2\<rparr>" "\<lparr>row = 0, column = 0\<rparr>"] ne sp
  show ?thesis by (simp add: rectangle_points_def)
qed


section \<open>Copy\<close>

lemma toMatrix_fold_get:
  assumes "\<forall>p\<in>set ps. 0 \<le> row p \<and> 0 \<le> column p"
  shows "Matrix_get r c (foldl (\<lambda>acc p. Matrix_set (nat (row p)) (nat (column p))
                                   (Matrix_get (row p) (column p) m) acc) d ps)
         = (if \<lparr>row = r, column = c\<rparr> \<in> set ps then Matrix_get r c m else Matrix_get r c d)"
  using assms
proof (induction ps arbitrary: d)
  case Nil
  then show ?case by simp
next
  case (Cons p ps)
  then have nn: "0 \<le> row p" "0 \<le> column p" by auto
  have "p = \<lparr>row = r, column = c\<rparr> \<longleftrightarrow> r = row p \<and> c = column p"
    by (cases p) auto
  with Cons nn show ?case
    by (auto simp: Matrix_get_set)
qed

lemma Matrix_get_Nil: "Matrix_get r c [] = Undefined"
  by (simp add: Matrix_get_def js_index_Nil)

lemma toMatrix_get:
  assumes "\<forall>p\<in>set ps. 0 \<le> row p \<and> 0 \<le> column p"
  shows "Matrix_get r c (toMatrix ps m)
         = (if \<lparr>row = r, column = c\<rparr> \<in> set ps then Matrix_get r c m else Undefined)"
  unfolding toMatrix_def PointSet_reduce_def
  by (simp add: toMatrix_fold_get[OF assms] Matrix_get_Nil)

lemma set_js_assign: "set (js_assign xs i v) \<subseteq> insert None (insert (Some v) (set xs))"
  by (auto simp: js_assign_def dest: set_update_subset_insert[THEN subsetD])

lemma js_index_in_set: "js_index xs i = Some v \<Longrightarrow> Some v \<in> set xs"
  by (auto dest!: js_index_Some) (metis nth_mem)

lemma row_bound_Matrix_set:
  assumes "c < C" and "row_bound C d"
  shows "row_bound C (Matrix_set r c v d)"
proof -
  let ?old = "case js_index d (int r) of Some old \<Rightarrow> spread_row old | None \<Rightarrow> []"
  have "length ?old \<le> C"
    using assms(2) by (auto simp: row_bound_def spread_row_def dest: js_index_in_set split: option.splits)
  then have "length (js_assign ?old c v) \<le> C"
    using assms(1) by (simp add: length_js_assign)
  then show ?thesis
    using assms(2) set_js_assign[of d r "js_assign ?old c v"]
    unfolding row_bound_def Matrix_set_def Let_def by auto
qed

lemma toMatrix_fold_bounds:
  assumes "\<forall>p\<in>set ps. 0 \<le> row p \<and> row p < int R \<and> 0 \<le> column p \<and> column p < int C"
    and "length d \<le> R" and "row_bound C d"
  shows "length (foldl (\<lambda>acc p. Matrix_set (nat (row p)) (nat (column p))
                                   (Matrix_get (row p) (column p) m) acc) d ps) \<le> R
       \<and> row_bound C (foldl (\<lambda>acc p. Matrix_set (nat (row p)) (nat (column p))
                                   (Matrix_get (row p) (column p) m) acc) d ps)"
  using assms
proof (induction ps arbitrary: d)
  case Nil
  then show ?case by simp
next
  case (Cons p ps)
  then have p: "nat (row p) < R" "nat (column p) < C" by auto
  let ?d1 = "Matrix_set (nat (row p)) (nat (column p)) (Matrix_get (row p) (column p) m) d"
  have "length ?d1 \<le> R"
    using p Cons.prems(2) by (simp add: Matrix_set_def Let_def length_js_assign)
  moreover have "row_bound C ?d1"
    using p Cons.prems(3) by (simp add: row_bound_Matrix_set)
  ultimately show ?case using Cons.IH[of ?d1] Cons.prems(1) by simp
qed

lemma toMatrix_bounds:
  assumes "\<forall>p\<in>set ps. 0 \<le> row p \<and> row p < int R \<and> 0 \<le> column p \<and> column p < int C"
  shows "length (toMatrix ps m) \<le> R \<and> row_bound C (toMatrix ps m)"
  unfolding toMatrix_def PointSet_reduce_def
  by (rule toMatrix_fold_bounds[OF assms]) (simp_all add: row_bound_def)

lemma js_filter_truthy: "js_filter truthy xs = map Some (filter truthy (map read_slot xs))"
  by (induction xs) (auto simp: js_filter_def read_slot_def split: option.splits)


lemma row_cells_upto:
  assumes "length xs \<le> C"
  shows "filter truthy (map read_slot xs)
       = map (\<lambda>c. read_slot (js_index xs (int c)))
           (filter (\<lambda>c. truthy (read_slot (js_index xs (int c)))) [0..<C])"
proof -
  let ?g = "\<lambda>c. read_slot (js_index xs (int c))"
  have "map read_slot xs = map ?g [0..<length xs]"
    by (rule nth_equalityI) (simp_all add: js_index_def)
  then have "filter truthy (map read_slot xs) = map ?g (filter (\<lambda>c. truthy (?g c)) [0..<length xs])"
    by (simp add: filter_map o_def)
  moreover have "[0..<C] = [0..<length xs] @ [length xs..<C]"
    using assms by (metis le_add_diff_inverse upt_add_eq_append zero_le)
  moreover have "filter (\<lambda>c. truthy (?g c)) [length xs..<C] = []"
    by (auto simp: filter_empty_conv js_index_def read_slot_def)
  ultimately show ?thesis by simp
qed

lemma kept_of_row:
  assumes "r < length tm" and "row_bound C tm"
  shows "map_option (js_filter truthy) (tm ! r)
       = (case tm ! r of None \<Rightarrow> None | Some xs \<Rightarrow> Some (map Some (kept_of tm C r)))"
    and "tm ! r = None \<Longrightarrow> kept_of tm C r = []"
proof -
  have idx: "js_index tm (int r) = tm ! r" using assms(1) by (simp add: js_index_def)
  show "tm ! r = None \<Longrightarrow> kept_of tm C r = []"
    by (simp add: kept_of_def Matrix_get_def idx)
  show "map_option (js_filter truthy) (tm ! r)
       = (case tm ! r of None \<Rightarrow> None | Some xs \<Rightarrow> Some (map Some (kept_of tm C r)))"
  proof (cases "tm ! r")
    case None
    then show ?thesis by simp
  next
    case (Some xs)
    then have "Some xs \<in> set tm" using assms(1) by (metis nth_mem)
    then have "length xs \<le> C" using assms(2) by (simp add: row_bound_def)
    then show ?thesis
      using Some by (simp add: js_filter_truthy row_cells_upto kept_of_def Matrix_get_def idx)
  qed
qed

lemma kept_of_beyond: "length tm \<le> r \<Longrightarrow> kept_of tm C r = []"
  by (simp add: kept_of_def Matrix_get_def js_index_def)

lemma Matrix_filter_truthy:
  assumes len: "length tm \<le> R" and rb: "row_bound C tm"
  shows "Matrix_filter truthy tm
       = map (\<lambda>cells. Some (map Some cells))
           (filter (\<lambda>cells. cells \<noteq> []) (map (kept_of tm C) [0..<R]))"
proof -
  let ?F = "\<lambda>r. map_option (js_filter truthy) (tm ! r)"
  let ?P = "\<lambda>r. case r of None \<Rightarrow> False | Some xs \<Rightarrow> xs \<noteq> []"
  let ?n = "length tm"
  have tm: "map (map_option (js_filter truthy)) tm = map ?F [0..<?n]"
    by (rule nth_equalityI) simp_all
  have keep: "(?P (?F r)) = (kept_of tm C r \<noteq> [])" if "r < ?n" for r
    using kept_of_row[OF that rb] by (cases "tm ! r") auto
  have val: "?F r = Some (map Some (kept_of tm C r))" if "r < ?n" "kept_of tm C r \<noteq> []" for r
    using kept_of_row[OF that(1) rb] that(2) by (cases "tm ! r") auto
  have "Matrix_filter truthy tm = map ?F (filter (\<lambda>r. ?P (?F r)) [0..<?n])"
    unfolding Matrix_filter_def tm by (simp add: filter_map o_def)
  also have "filter (\<lambda>r. ?P (?F r)) [0..<?n] = filter (\<lambda>r. kept_of tm C r \<noteq> []) [0..<?n]"
  proof (rule filter_cong)
    show "[0..<?n] = [0..<?n]" by (rule refl)
  next
    fix r assume "r \<in> set [0..<?n]"
    then have "r < ?n" by simp
    then show "?P (?F r) = (kept_of tm C r \<noteq> [])" by (rule keep)
  qed
  also have "map ?F (filter (\<lambda>r. kept_of tm C r \<noteq> []) [0..<?n])
      = map (\<lambda>r. Some (map Some (kept_of tm C r))) (filter (\<lambda>r. kept_of tm C r \<noteq> []) [0..<?n])"
  proof (rule map_cong)
    show "filter (\<lambda>r. kept_of tm C r \<noteq> []) [0..<?n] = filter (\<lambda>r. kept_of tm C r \<noteq> []) [0..<?n]"
      by (rule refl)
  next
    fix r assume "r \<in> set (filter (\<lambda>r. kept_of tm C r \<noteq> []) [0..<?n])"
    then have "r < ?n" "kept_of tm C r \<noteq> []" by simp_all
    then show "?F r = Some (map Some (kept_of tm C r))" by (rule val)
  qed
  also have "\<dots> = map (\<lambda>cells. Some (map Some cells))
           (filter (\<lambda>cells. cells \<noteq> []) (map (kept_of tm C) [0..<?n]))"
    by (simp add: filter_map o_def)
  also have "filter (\<lambda>cells. cells \<noteq> []) (map (kept_of tm C) [0..<?n])
      = filter (\<lambda>cells. cells \<noteq> []) (map (kept_of tm C) [0..<R])"
  proof -
    have "[0..<R] = [0..<?n] @ [?n..<R]"
      using len by (metis le_add_diff_inverse upt_add_eq_append zero_le)
    moreover have "filter (\<lambda>cells. cells \<noteq> []) (map (kept_of tm C) [?n..<R]) = []"
      by (simp add: filter_empty_conv kept_of_beyond)
    ultimately show ?thesis by simp
  qed
  finally show ?thesis .
qed

lemma kept_of_toMatrix:
  assumes "\<forall>p\<in>set ps. 0 \<le> row p \<and> 0 \<le> column p"
  shows "kept_of (toMatrix ps m) C r = kept_cells ps m C r"
proof -
  have "filter (\<lambda>c. truthy (Matrix_get (int r) (int c) (toMatrix ps m))) [0..<C]
      = filter (\<lambda>c. \<lparr>row = int r, column = int c\<rparr> \<in> set ps \<and> truthy (Matrix_get (int r) (int c) m)) [0..<C]"
    by (rule filter_cong) (simp_all add: toMatrix_get[OF assms])
  moreover have "map (\<lambda>c. Matrix_get (int r) (int c) (toMatrix ps m))
         (filter (\<lambda>c. \<lparr>row = int r, column = int c\<rparr> \<in> set ps \<and> truthy (Matrix_get (int r) (int c) m)) [0..<C])
      = map (\<lambda>c. Matrix_get (int r) (int c) m)
         (filter (\<lambda>c. \<lparr>row = int r, column = int c\<rparr> \<in> set ps \<and> truthy (Matrix_get (int r) (int c) m)) [0..<C])"
    by (rule map_cong) (simp_all add: toMatrix_get[OF assms])
  ultimately show ?thesis
    unfolding kept_of_def kept_cells_def by simp
qed

lemma filtered_toMatrix:
  assumes "\<forall>p\<in>set ps. 0 \<le> row p \<and> row p < int R \<and> 0 \<le> column p \<and> column p < int C"
  shows "Matrix_filter truthy (toMatrix ps m)
       = map (\<lambda>cells. Some (map Some cells)) (copied_rows ps m R C)"
proof -
  have nn: "\<forall>p\<in>set ps. 0 \<le> row p \<and> 0 \<le> column p" using assms by auto
  have "kept_of (toMatrix ps m) C = kept_cells ps m C"
    by (rule ext) (rule kept_of_toMatrix[OF nn])
  moreover have "length (toMatrix ps m) \<le> R" "row_bound C (toMatrix ps m)"
    using toMatrix_bounds[OF assms, of m] by simp_all
  ultimately show ?thesis
    using Matrix_filter_truthy[of "toMatrix ps m" R C] by (simp add: copied_rows_def)
qed

lemma js_map_dense:
  assumes "\<forall>v\<in>set vs. f v = Inr (g v)"
  shows "js_map f (map Some vs) = Inr (map Some (map g vs))"
  using assms by (induction vs) simp_all

lemma Matrix_map_dense:
  assumes "\<forall>vs\<in>set rs. \<forall>v\<in>set vs. f v = Inr (g v)"
  shows "Matrix_map f (map (\<lambda>cells. Some (map Some cells)) rs)
       = Inr (map (\<lambda>cells. Some (map Some cells)) (map (map g) rs))"
  using assms
proof (induction rs)
  case Nil
  then show ?case by simp
next
  case (Cons vs rs)
  have "js_map f (map Some vs) = Inr (map Some (map g vs))"
    using Cons.prems by (intro js_map_dense) simp
  moreover have "Matrix_map f (map (\<lambda>cells. Some (map Some cells)) rs)
       = Inr (map (\<lambda>cells. Some (map Some cells)) (map (map g) rs))"
    using Cons by simp
  ultimately show ?case by simp
qed

lemma Matrix_join_dense:
  "Matrix_join (map (\<lambda>vs. Some (map Some vs)) vrows) None None = csv_text vrows"
  by (simp add: Matrix_join_def js_join_def csv_text_def o_def)


text \<open>
  What copy does where \<open>getValue\<close> gives a value for each cell that is kept: the text is
  these values, joined by \<open>", "\<close> within a row and by a newline between rows, the default
  separators of \<open>join\<close>; it is written when the platform has no permission query or the
  query resolves with a truthy state, and the selection becomes the copied set.
\<close>

lemma handleCopy_resolved_values:
  assumes pts: "\<forall>p\<in>set (selected st). 0 \<le> row p \<and> row p < int R \<and> 0 \<le> column p \<and> column p < int C"
    and vals: "\<forall>cells\<in>set (copied_rows (selected st) (data st) R C).
                 \<forall>v\<in>set cells. getValue v = Inr (value_of v)"
    and csv: "csv = csv_text (map (map value_of) (copied_rows (selected st) (data st) R C))"
  shows "handleCopy navigator st =
           Inr (case navigator of
                  NoPermissions \<Rightarrow> Some csv
                | QueryResolves status \<Rightarrow> (if truthy status then Some csv else None)
                | QueryRejects \<Rightarrow> None,
                st\<lparr>copied := selected st, cut := Some False, hasPasted := Some False\<rparr>)"
proof -
  let ?rows = "copied_rows (selected st) (data st) R C"
  have f: "Matrix_filter truthy (toMatrix (selected st) (data st))
      = map (\<lambda>cells. Some (map Some cells)) ?rows"
    by (rule filtered_toMatrix[OF pts])
  have m: "Matrix_map getValue (map (\<lambda>cells. Some (map Some cells)) ?rows)
      = Inr (map (\<lambda>cells. Some (map Some cells)) (map (map value_of) ?rows))"
    by (rule Matrix_map_dense[OF vals])
  have j: "Matrix_join (map (\<lambda>cells. Some (map Some cells)) (map (map value_of) ?rows)) None None = csv"
    unfolding csv by (rule Matrix_join_dense)
  have s: "setState st (empty_patch\<lparr>p_copied := Some (selected st), p_cut := Some False,
                      p_hasPasted := Some False\<rparr>)
      = st\<lparr>copied := selected st, cut := Some False, hasPasted := Some False\<rparr>"
    by (simp add: setState_def empty_patch_def)
  show ?thesis
    unfolding handleCopy_def Let_def f m s
    by (simp only: sum.case j)
qed

text \<open>
  \<open>getValue\<close> throws on a cell that has no \<open>data\<close> property, and one such cell among
  the cells that are kept makes the whole copy throw.
\<close>

lemma getValue_plain_cell:
  "map_of fs ''data'' = None \<Longrightarrow> getValue (JObj a fs) = Inl TypeError"
  by (simp add: getValue_def)

lemma js_map_throws:
  assumes "\<exists>v\<in>set vs. f v = Inl TypeError"
  shows "js_map f (map Some vs) = Inl TypeError"
  using assms
proof (induction vs)
  case Nil
  then show ?case by simp
next
  case (Cons v vs)
  show ?case
  proof (cases "f v")
    case (Inl e)
    then show ?thesis by (cases e) simp
  next
    case (Inr w)
    with Cons have "js_map f (map Some vs) = Inl TypeError" by auto
    with Inr show ?thesis by simp
  qed
qed

lemma Matrix_map_throws:
  assumes "\<exists>vs\<in>set rs. \<exists>v\<in>set vs. f v = Inl TypeError"
  shows "Matrix_map f (map (\<lambda>cells. Some (map Some cells)) rs) = Inl TypeError"
  using assms
proof (induction rs)
  case Nil
  then show ?case by simp
next
  case (Cons vs rs)
  show ?case
  proof (cases "js_map f (map Some vs)")
    case (Inl e)
    then show ?thesis by (cases e) simp
  next
    case (Inr ws)
    then have "\<not> (\<exists>v\<in>set vs. f v = Inl TypeError)"
      using js_map_throws[of vs f] by auto
    with Cons have "Matrix_map f (map (\<lambda>cells. Some (map Some cells)) rs) = Inl TypeError"
      by auto
    with Inr show ?thesis by simp
  qed
qed

lemma handleCopy_throws:
  assumes pts: "\<forall>p\<in>set (selected st). 0 \<le> row p \<and> row p < int R \<and> 0 \<le> column p \<and> column p < int C"
    and bad: "\<exists>cells\<in>set (copied_rows (selected st) (data st) R C).
                 \<exists>v\<in>set cells. getValue v = Inl TypeError"
  shows "handleCopy navigator st = Inl TypeError"
  unfolding handleCopy_def Let_def filtered_toMatrix[OF pts] Matrix_map_throws[OF bad]
  by simp

text \<open>
  C2 on the code. In the scenario of the claim, the cells \<open>{value: "A"}\<close> and
  \<open>{value: "B"}\<close> at \<open>(0,0)\<close> and \<open>(0,1)\<close> are selected. Copy maps \<open>getValue\<close> over the
  cells themselves; \<open>getValue\<close> looks for the \<open>data\<close> of its argument, finds none in a
  cell and throws, so copy ends with a TypeError whatever the platform answers: no text
  is written and the state is not set. Called the way the components call it, on
  \<open>{data: cell}\<close>, \<open>getValue\<close> gives \<open>"A"\<close>. The values \<open>"A"\<close> and \<open>"B"\<close> themselves
  would be joined to \<open>"A, B"\<close>, since \<open>join\<close> is called without separators, and not to
  the two values with a tab between them.
\<close>

theorem copy_throws_on_plain_cells:
  "data row_sheet = [Some [Some cellA, Some cellB]]
   \<and> selected row_sheet = [\<lparr>row = 0, column = 0\<rparr>, \<lparr>row = 0, column = 1\<rparr>]
   \<and> cellA = JObj 1 [(''value'', JStr ''A'')] \<and> cellB = JObj 2 [(''value'', JStr ''B'')]
   \<and> getValue cellA = Inl TypeError
   \<and> getValue (JObj n [(''data'', cellA)]) = Inr (JStr ''A'')
   \<and> handleCopy navigator row_sheet = Inl TypeError
   \<and> Matrix_join [Some [Some (JStr ''A''), Some (JStr ''B'')]] None None = ''A, B''
   \<and> ''A, B'' \<noteq> ''A'' @ [CHR 0x09] @ ''B''"
  by (simp add: row_sheet_def cellA_def cellB_def
        handleCopy_def toMatrix_def PointSet_reduce_def Matrix_set_def
        Matrix_get_def js_index_def js_assign_def read_slot_def spread_row_def Matrix_filter_def
        js_filter_def getValue_def Matrix_join_def js_join_def Let_def)

end
